theory Spec2Isabelle
  imports Complex_Main "HOL-Library.AList"
begin

section \<open>GPTQ calibration (src/brevitas/graph/gptq.py)\<close>

text \<open>
  A shallow embedding of \<^verbatim>\<open>gptq.py\<close>: the per-layer state \<^verbatim>\<open>GPTQ\<close> with its Hessian
  accumulator (\<^verbatim>\<open>update_batch\<close>) and its weight correction (\<^verbatim>\<open>single_layer_update\<close>),
  and the session \<^verbatim>\<open>gptq_mode\<close> that wraps the model's forward.

  Tensors are nested lists of reals: arithmetic is exact, so every statement below is
  about the algorithm in exact arithmetic and says nothing about floating-point
  rounding. A nested list does not record the size of an inner dimension when an outer
  one is empty; where the source reads such a size from the input's shape, the model
  reads it from the layer state (\<open>columns\<close>, \<open>groups\<close>), with which it agrees for every
  input the layer's own forward has accepted (the hook runs after that forward).
\<close>

subsection \<open>Tensors\<close>

type_synonym matrix = "real list list"
type_synonym tensor3 = "real list list list"
type_synonym tensor4 = "real list list list list"

definition dot :: "real list \<Rightarrow> real list \<Rightarrow> real" where
  "dot xs ys = sum_list (map2 (*) xs ys)"

text \<open>\<^verbatim>\<open>c * X\<close> and \<^verbatim>\<open>X += Y\<close> on matrices.\<close>

definition mscale :: "real \<Rightarrow> matrix \<Rightarrow> matrix" where
  "mscale c X = map (map ((*) c)) X"

definition madd :: "matrix \<Rightarrow> matrix \<Rightarrow> matrix" where
  "madd X Y = map2 (map2 (+)) X Y"

text \<open>
  \<^verbatim>\<open>X.bmm(X.transpose(2, 1))\<close> for one group: entry \<open>(i, j)\<close> is the sum over the
  samples (the columns of \<open>X\<close>) of \<open>X[i][k] * X[j][k]\<close>.
\<close>

definition gram :: "matrix \<Rightarrow> matrix" where
  "gram X = map (\<lambda>r. map (\<lambda>r'. dot r r') X) X"

definition zeros :: "nat \<Rightarrow> nat \<Rightarrow> matrix" where
  "zeros m n = replicate m (replicate n 0)"

definition diag :: "matrix \<Rightarrow> real list" where
  "diag A = map (\<lambda>i. A ! i ! i) [0..<length A]"

definition square :: "nat \<Rightarrow> matrix \<Rightarrow> bool" where
  "square n A \<longleftrightarrow> length A = n \<and> list_all (\<lambda>r. length r = n) A"

definition symmetric :: "matrix \<Rightarrow> bool" where
  "symmetric A \<longleftrightarrow>
     list_all (\<lambda>i. list_all (\<lambda>j. A ! i ! j = A ! j ! i) [0..<length A]) [0..<length A]"

subsection \<open>Exceptions and the layer\<close>

datatype exn =
    StopFwdException
  | ZeroDivisionError
  | AttributeError
  | RuntimeError
  | ValueError
  | KeyError
  | OtherError string

datatype layer_kind = QuantLinear | QuantConv2d

text \<open>
  The layer as \<^verbatim>\<open>GPTQ\<close> uses it: its kind, \<^verbatim>\<open>layer.groups\<close> (convolutions only),
  \<^verbatim>\<open>layer.weight.data\<close> in the flattened layout \<open>[OC, columns]\<close> that every access of
  the source goes through, and two capabilities that are not code of this file and are
  taken as parameters: \<open>unfold\<close> is \<^verbatim>\<open>nn.Unfold(kernel_size, dilation, padding, stride)\<close>
  on one sample of one group (torch unfolds every batch element on its own), and
  \<open>quant_weight\<close> is \<^verbatim>\<open>layer.quant_weight().value\<close>, flattened, as a function of the
  current float weights.
\<close>

record layer =
  kind :: layer_kind
  conv_groups :: nat
  weight :: matrix
  unfold :: "tensor3 \<Rightarrow> matrix"
  quant_weight :: "matrix \<Rightarrow> matrix"

record layer_handler =
  layer_name :: "string option"

record gptq =
  layer :: layer
  name :: string
  num_blocks :: nat
  act_order :: bool
  groups :: nat
  rows :: nat
  columns :: nat
  blocksize :: nat
  H :: "tensor3 option"
  nsamples :: nat

text \<open>
  \<^verbatim>\<open>GPTQ.__init__\<close>. \<^verbatim>\<open>math.ceil(columns / num_blocks)\<close> divides Python numbers:
  \<^verbatim>\<open>num_blocks = 0\<close> raises. The accumulator starts as zeros of shape
  \<open>[groups, columns, columns]\<close>, the sample count as 0.
\<close>

definition shape1 :: "matrix \<Rightarrow> nat" where
  "shape1 W = (case W of [] \<Rightarrow> 0 | r # _ \<Rightarrow> length r)"

definition ceil_div :: "nat \<Rightarrow> nat \<Rightarrow> nat" where
  "ceil_div a b = (a + b - 1) div b"

definition gptq_init :: "layer \<Rightarrow> string \<Rightarrow> nat \<Rightarrow> bool \<Rightarrow> exn + gptq" where
  "gptq_init l nm nb ao =
     (let g = (if kind l = QuantConv2d then conv_groups l else 1);
          r = length (weight l);
          c = shape1 (weight l)
      in if nb = 0 then Inl ZeroDivisionError
         else Inr \<lparr> layer = l, name = nm, num_blocks = nb, act_order = ao, groups = g,
                    rows = r, columns = c, blocksize = ceil_div c nb,
                    H = Some (replicate g (zeros c c)), nsamples = 0 \<rparr>)"

subsection \<open>The Hessian accumulator: \<^verbatim>\<open>GPTQ.update_batch\<close>\<close>

text \<open>
  The hook's input: \<^verbatim>\<open>input[0]\<close>, a tensor of rank 2, 3 or 4, possibly wrapped in a
  \<^verbatim>\<open>QuantTensor\<close> whose \<^verbatim>\<open>value\<close> is taken.
\<close>

datatype tensor = T2 matrix | T3 tensor3 | T4 tensor4

datatype hook_input = Plain tensor | QuantTensor tensor

fun inp_value :: "hook_input \<Rightarrow> tensor" where
  "inp_value (Plain t) = t"
| "inp_value (QuantTensor t) = t"

text \<open>\<^verbatim>\<open>if len(inp.shape) == 2: inp = inp.unsqueeze(0)\<close>\<close>

fun unsqueeze_unbatched :: "tensor \<Rightarrow> tensor" where
  "unsqueeze_unbatched (T2 m) = T3 [m]"
| "unsqueeze_unbatched t = t"

text \<open>\<^verbatim>\<open>batch_size = inp.shape[0]\<close>, after the promotion above.\<close>

fun shape0 :: "tensor \<Rightarrow> nat" where
  "shape0 (T2 m) = length m"
| "shape0 (T3 b) = length b"
| "shape0 (T4 b) = length b"

text \<open>
  \<^verbatim>\<open>QuantLinear\<close>: \<^verbatim>\<open>inp.reshape((-1, inp.shape[-1])).t().unsqueeze(0)\<close> on a rank-3
  input \<open>[B, S, F]\<close>: one group, one row per feature, one column per row of the
  reshaped input. (\<^verbatim>\<open>t()\<close> rejects a rank-4 tensor.)
\<close>

definition linear_processed :: "nat \<Rightarrow> tensor3 \<Rightarrow> tensor3" where
  "linear_processed c b = [map (\<lambda>f. map (\<lambda>row. row ! f) (concat b)) [0..<c]]"

text \<open>
  \<^verbatim>\<open>QuantConv2d\<close>: \<^verbatim>\<open>torch.chunk(inp, groups, 1)\<close> cuts the channels of every sample
  into pieces of \<open>ceil(C / groups)\<close> channels; each piece is unfolded to
  \<open>[columns, L]\<close>, and \<^verbatim>\<open>permute([1, 0, 2]).flatten(1)\<close> lays the samples of a group
  side by side: row \<open>r\<close> of group \<open>i\<close> is the concatenation, over the batch, of row
  \<open>r\<close> of the unfolded piece \<open>i\<close>.
\<close>

definition chunk :: "nat \<Rightarrow> nat \<Rightarrow> 'a list \<Rightarrow> 'a list" where
  "chunk g i xs = (let cs = ceil_div (length xs) g in take cs (drop (i * cs) xs))"

definition conv_processed :: "gptq \<Rightarrow> tensor4 \<Rightarrow> tensor3" where
  "conv_processed s b =
     map (\<lambda>i. map (\<lambda>r. concat (map (\<lambda>x. unfold (layer s) (chunk (groups s) i x) ! r) b))
                 [0..<columns s])
         [0..<groups s]"

fun preprocess :: "gptq \<Rightarrow> tensor \<Rightarrow> exn + tensor3" where
  "preprocess s (T3 b) =
     (if kind (layer s) = QuantLinear then Inr (linear_processed (columns s) b)
      else Inl RuntimeError)"
| "preprocess s (T4 b) =
     (if kind (layer s) = QuantConv2d then Inr (conv_processed s b)
      else Inl RuntimeError)"
| "preprocess s (T2 m) = Inl RuntimeError"

text \<open>
  Lines 212--217. The scaling factor and \<^verbatim>\<open>2 / nsamples\<close> divide Python integers:
  a first batch of size 0 raises \<^verbatim>\<open>ZeroDivisionError\<close> before anything is mutated.
  A deleted accumulator (after \<^verbatim>\<open>single_layer_update\<close>) raises \<^verbatim>\<open>AttributeError\<close>.
  The function never returns: it yields the exception it raises and the state and
  the shared current-layer cell as it leaves them.
\<close>

definition hessian_update :: "gptq \<Rightarrow> nat \<Rightarrow> tensor3 \<Rightarrow> exn \<times> gptq" where
  "hessian_update s batch_size inp_processed =
     (case H s of
        None \<Rightarrow> (AttributeError, s)
      | Some h \<Rightarrow>
          if nsamples s + batch_size = 0 then (ZeroDivisionError, s)
          else
            let h1 = map (mscale (real (nsamples s) / real (nsamples s + batch_size))) h;
                n = nsamples s + batch_size;
                x = map (mscale (sqrt (2 / real n))) inp_processed;
                h2 = map2 madd h1 (map gram x)
            in (StopFwdException, s\<lparr>H := Some h2, nsamples := n\<rparr>))"

definition update_batch ::
  "gptq \<Rightarrow> hook_input \<Rightarrow> layer_handler \<Rightarrow> exn \<times> gptq \<times> layer_handler" where
  "update_batch s input current_layer =
     (let current_layer = current_layer\<lparr>layer_name := Some (name s)\<rparr>;
          inp = unsqueeze_unbatched (inp_value input);
          batch_size = shape0 inp
      in case preprocess s inp of
           Inl e \<Rightarrow> (e, s, current_layer)
         | Inr inp_processed \<Rightarrow>
             (let (e, s') = hessian_update s batch_size inp_processed
              in (e, s', current_layer)))"

subsection \<open>The entry-point wrapper: \<^verbatim>\<open>gptq_mode.catch_stopfwd\<close>\<close>

text \<open>
  The wrapped forward takes its arguments and the program state and either returns
  a value or raises, leaving a state. A returned value is \<open>Some out\<close>, or \<open>None\<close> for
  Python's \<^verbatim>\<open>None\<close>. \<^verbatim>\<open>catch_stopfwd\<close> has no \<^verbatim>\<open>return\<close> statement.
\<close>

definition catch_stopfwd ::
  "('a \<Rightarrow> 'st \<Rightarrow> (exn + 'o option) \<times> 'st) \<Rightarrow> 'a \<Rightarrow> 'st \<Rightarrow> (exn + 'o option) \<times> 'st" where
  "catch_stopfwd orig_forward args st =
     (case orig_forward args st of
        (Inr out, st') \<Rightarrow> (Inr None, st')
      | (Inl StopFwdException, st') \<Rightarrow> (Inr None, st')
      | (Inl e, st') \<Rightarrow> (Inl e, st'))"

subsection \<open>The weight correction: \<^verbatim>\<open>GPTQ.single_layer_update\<close>\<close>

text \<open>
  The linear-algebra primitives of torch that can fail are parameters:
  \<open>cholesky upper A\<close> is \<^verbatim>\<open>torch.linalg.cholesky(A, upper=upper)\<close>, with \<open>None\<close> for
  \<^verbatim>\<open>LinAlgError\<close>, and \<open>cholesky_inverse\<close> is \<^verbatim>\<open>torch.cholesky_inverse\<close>. The
  statements below hold for whatever these return, unless they say otherwise.
\<close>

record linalg =
  cholesky :: "bool \<Rightarrow> matrix \<Rightarrow> matrix option"
  cholesky_inverse :: "matrix \<Rightarrow> matrix"

text \<open>Python slices \<^verbatim>\<open>xs[i1:i2]\<close> (for \<open>i1 \<le> i2\<close>) and \<^verbatim>\<open>xs[i:]\<close>.\<close>

definition slice :: "nat \<Rightarrow> nat \<Rightarrow> 'a list \<Rightarrow> 'a list" where
  "slice i1 i2 xs = take (i2 - i1) (drop i1 xs)"

text \<open>\<^verbatim>\<open>row[idx]\<close> and \<^verbatim>\<open>row[idx] = vals\<close> with an index tensor.\<close>

definition gather :: "nat list \<Rightarrow> 'a list \<Rightarrow> 'a list" where
  "gather idx row = map (\<lambda>j. row ! j) idx"

definition scatter :: "nat list \<Rightarrow> 'a list \<Rightarrow> 'a list \<Rightarrow> 'a list" where
  "scatter idx vals row = fold (\<lambda>(j, v) r. r[j := v]) (zip idx vals) row"

text \<open>
  Lines 239--240 and 256--257: \<^verbatim>\<open>dead = torch.diag(H) == 0\<close>, and
  \<^verbatim>\<open>H[dead, dead] = 1\<close>, which pairs the two masks index by index and so writes the
  diagonal entries of the dead columns only. Lines 242 and 259 zero the dead
  entries of a weight row.
\<close>

definition dead_mask :: "matrix \<Rightarrow> bool list" where
  "dead_mask A = map (\<lambda>x. x = 0) (diag A)"

definition set_dead_diag :: "bool list \<Rightarrow> matrix \<Rightarrow> matrix" where
  "set_dead_diag dead A =
     map (\<lambda>i. if dead ! i then (A ! i)[i := 1] else A ! i) [0..<length A]"

definition zero_dead :: "bool list \<Rightarrow> real list \<Rightarrow> real list" where
  "zero_dead dead row = map2 (\<lambda>d w. if d then 0 else w) dead row"

text \<open>
  \<^verbatim>\<open>torch.argsort(d, descending=True)\<close>: the indices of \<open>d\<close> by descending value.
  torch leaves the order among equal values open; the model keeps them in index
  order. \<^verbatim>\<open>H[perm, :][:, perm]\<close> permutes rows and columns.
\<close>

definition argsort_desc :: "real list \<Rightarrow> nat list" where
  "argsort_desc d = sort_key (\<lambda>i. - (d ! i)) [0..<length d]"

definition permute_sym :: "nat list \<Rightarrow> matrix \<Rightarrow> matrix" where
  "permute_sym perm A = map (\<lambda>i. map (\<lambda>j. A ! i ! j) perm) perm"

text \<open>
  The body shared by lines 239--251 and 256--268 for one group: the dead mask, the
  accumulator with its dead diagonal set to 1 (and permuted when \<^verbatim>\<open>act_order\<close>),
  and the permutation; \<^verbatim>\<open>range(self.H.shape[-1])\<close> is \<open>[0..<columns]\<close>.
\<close>

definition order_group :: "bool \<Rightarrow> nat \<Rightarrow> matrix \<Rightarrow> bool list \<times> matrix \<times> nat list" where
  "order_group ao c A =
     (let dead = dead_mask A;
          A1 = set_dead_diag dead A
      in if ao then (let perm = argsort_desc (diag A1) in (dead, permute_sym perm A1, perm))
         else (dead, A1, [0..<c]))"

text \<open>
  Lines 232--268. For \<^verbatim>\<open>groups > 1\<close> the loop handles group \<open>i\<close> with row \<open>i\<close> of the
  weights; otherwise group 0 is handled with every row, and
  \<^verbatim>\<open>self.H[:, perm, :][:, :, perm]\<close> permutes every group.
  The result is the accumulator, the weights and \<^verbatim>\<open>permutation_list\<close>.
\<close>

fun order_groups ::
  "bool \<Rightarrow> nat \<Rightarrow> nat list \<Rightarrow> tensor3 \<times> matrix \<times> nat list list \<Rightarrow>
   tensor3 \<times> matrix \<times> nat list list" where
  "order_groups ao c [] acc = acc"
| "order_groups ao c (i # is) (h, w, permutation_list) =
     (let (dead, A, perm) = order_group ao c (h ! i)
      in order_groups ao c is
           (h[i := A], w[i := zero_dead dead (w ! i)], permutation_list @ [perm]))"

definition dead_and_order :: "gptq \<Rightarrow> tensor3 \<Rightarrow> matrix \<Rightarrow> tensor3 \<times> matrix \<times> nat list list" where
  "dead_and_order s h w =
     (if groups s > 1 then order_groups (act_order s) (columns s) [0..<groups s] (h, w, [])
      else
        let dead = dead_mask (h ! 0);
            h1 = h[0 := set_dead_diag dead (h ! 0)];
            w1 = map (zero_dead dead) w
        in if act_order s
           then (let perm = argsort_desc (diag (h1 ! 0))
                 in (map (permute_sym perm) h1, w1, [perm]))
           else (h1, w1, [[0..<columns s]]))"

text \<open>
  Lines 272--279, inside the \<^verbatim>\<open>try\<close>: per group, damping by
  \<^verbatim>\<open>percdamp * mean(diag)\<close>, \<^verbatim>\<open>cholesky\<close>, \<^verbatim>\<open>cholesky_inverse\<close>, and
  \<^verbatim>\<open>cholesky(upper=True)\<close>; \<open>None\<close> when a decomposition raises \<^verbatim>\<open>LinAlgError\<close>.
\<close>

definition mean :: "real list \<Rightarrow> real" where
  "mean xs = sum_list xs / real (length xs)"

definition add_diag :: "real \<Rightarrow> matrix \<Rightarrow> matrix" where
  "add_diag damp A = map (\<lambda>i. (A ! i)[i := A ! i ! i + damp]) [0..<length A]"

definition invert_group :: "linalg \<Rightarrow> real \<Rightarrow> matrix \<Rightarrow> matrix option" where
  "invert_group la percdamp A =
     (let damp = percdamp * mean (diag A)
      in case cholesky la False (add_diag damp A) of
           None \<Rightarrow> None
         | Some L \<Rightarrow> cholesky la True (cholesky_inverse la L))"

fun invert_groups :: "linalg \<Rightarrow> real \<Rightarrow> nat list \<Rightarrow> tensor3 \<Rightarrow> tensor3 option" where
  "invert_groups la percdamp [] h = Some h"
| "invert_groups la percdamp (i # is) h =
     (case invert_group la percdamp (h ! i) of
        None \<Rightarrow> None
      | Some U \<Rightarrow> invert_groups la percdamp is (h[i := U]))"

text \<open>
  \<^verbatim>\<open>get_quant_weights\<close>: the quantizer is run on the current weights; with
  \<^verbatim>\<open>act_order\<close> its output is permuted like the float weights (for
  \<^verbatim>\<open>groups > 1\<close> row \<open>ii\<close> by the permutation of group \<open>ii\<close>); column \<open>i\<close> of the
  block \<open>[i1, i2)\<close> is returned.
\<close>

definition get_quant_weights ::
  "gptq \<Rightarrow> matrix \<Rightarrow> nat \<Rightarrow> nat \<Rightarrow> nat \<Rightarrow> nat list list \<Rightarrow> real list" where
  "get_quant_weights s w i i1 i2 permutation_list =
     (let qw = quant_weight (layer s) w;
          qw1 = (if act_order s
                 then (if groups s = 1 then map (gather (permutation_list ! 0)) qw
                       else map (\<lambda>ii. if ii < length permutation_list
                                       then gather (permutation_list ! ii) (qw ! ii)
                                       else qw ! ii) [0..<length qw])
                 else qw);
          quant_weight_block = map (slice i1 i2) qw1
      in map (\<lambda>row. row ! i) quant_weight_block)"

text \<open>
  \<^verbatim>\<open>(w - q) / d\<close>: \<open>d\<close> has one entry per group, which torch broadcasts over the
  rows when \<^verbatim>\<open>groups = 1\<close> and pairs with the rows otherwise. (A zero \<open>d\<close> gives
  \<open>inf\<close> or \<open>nan\<close> in torch and 0 here; no statement below rests on that case.)
\<close>

definition residual :: "real list \<Rightarrow> real list \<Rightarrow> real list \<Rightarrow> real list" where
  "residual w q d =
     (if length d = 1 then map2 (\<lambda>a b. (a - b) / d ! 0) w q
      else map2 (\<lambda>(a, b) c. (a - b) / c) (zip w q) d)"

text \<open>\<^verbatim>\<open>row[i:] -= e * hrow\<close>\<close>

definition sub_from :: "nat \<Rightarrow> real \<Rightarrow> real list \<Rightarrow> real list \<Rightarrow> real list" where
  "sub_from i e hrow row = take i row @ map2 (\<lambda>x y. x - e * y) (drop i row) hrow"

text \<open>
  The permutation that line 323 indexes with: the variable \<^verbatim>\<open>perm\<close> as the enclosing
  code last bound it, \<^verbatim>\<open>permutation_list[0]\<close> for \<^verbatim>\<open>groups = 1\<close> (line 295), and
  otherwise the last element that the loops of lines 301 and 328 ran over.
\<close>

definition perm_in_scope :: "gptq \<Rightarrow> nat list list \<Rightarrow> nat list" where
  "perm_in_scope s permutation_list =
     (if groups s = 1 then permutation_list ! 0 else last permutation_list)"

text \<open>
  One pass of the loop of lines 306--323 for column \<open>i\<close> of the block \<open>[i1, i2)\<close>, on the
  weights, \<^verbatim>\<open>weight_block\<close> and \<^verbatim>\<open>error_block\<close>.
\<close>

definition column_step ::
  "gptq \<Rightarrow> tensor3 \<Rightarrow> nat list list \<Rightarrow> nat \<Rightarrow> nat \<Rightarrow> nat \<Rightarrow>
   matrix \<times> matrix \<times> matrix \<Rightarrow> matrix \<times> matrix \<times> matrix" where
  "column_step s h_inv permutation_list i1 i2 i = (\<lambda>(wt, weight_block, error_block).
     let h_inv_block = map (\<lambda>A. map (slice i1 i2) (slice i1 i2 A)) h_inv;
         w = map (\<lambda>row. row ! i) weight_block;
         d = map (\<lambda>A. A ! i ! i) h_inv_block;
         q = get_quant_weights s wt i i1 i2 permutation_list;
         error = residual w q d;
         weight_block1 =
           (if groups s > 1
            then map (\<lambda>ii. if ii < groups s
                            then sub_from i (error ! ii) (drop i (h_inv_block ! ii ! i))
                                   (weight_block ! ii)
                            else weight_block ! ii) [0..<length weight_block]
            else map2 (\<lambda>e row. sub_from i e (drop i (h_inv_block ! 0 ! i)) row)
                   error weight_block);
         error_block1 = map2 (\<lambda>e row. row[i := e]) error error_block;
         perm = perm_in_scope s permutation_list;
         weight1 = map2 (\<lambda>row brow. scatter (drop i (slice i1 i2 perm)) (drop i brow) row)
                     wt weight_block1
     in (weight1, weight_block1, error_block1))"

text \<open>
  \<^verbatim>\<open>v.matmul(B)\<close> for a row vector, and lines 325--333: the errors of the block
  are propagated to the columns \<^verbatim>\<open>perm[i2:]\<close>.
\<close>

definition vecmat :: "real list \<Rightarrow> matrix \<Rightarrow> real list" where
  "vecmat v B = map (\<lambda>j. dot v (map (\<lambda>b. b ! j) B)) [0..<shape1 B]"

definition propagate_row ::
  "nat \<Rightarrow> nat \<Rightarrow> matrix \<Rightarrow> nat list \<Rightarrow> real list \<Rightarrow> real list \<Rightarrow> real list" where
  "propagate_row i1 i2 A perm erow row =
     (let idx = drop i2 perm;
          delta = vecmat erow (map (drop i2) (slice i1 i2 A))
      in scatter idx (map2 (-) (gather idx row) delta) row)"

definition propagate ::
  "gptq \<Rightarrow> tensor3 \<Rightarrow> nat list list \<Rightarrow> nat \<Rightarrow> nat \<Rightarrow> matrix \<Rightarrow> matrix \<Rightarrow> matrix" where
  "propagate s h_inv permutation_list i1 i2 error_block wt =
     (if groups s > 1
      then map (\<lambda>ii. if ii < length permutation_list
                      then propagate_row i1 i2 (h_inv ! ii) (permutation_list ! ii)
                             (error_block ! ii) (wt ! ii)
                      else wt ! ii) [0..<length wt]
      else map2 (propagate_row i1 i2 (h_inv ! 0) (permutation_list ! 0)) error_block wt)"

text \<open>
  Lines 294--304: \<^verbatim>\<open>weight_block\<close> and \<^verbatim>\<open>error_block\<close> at the start of the block
  \<open>[i1, i2)\<close>. For \<^verbatim>\<open>groups = 1\<close>, \<^verbatim>\<open>weight_block\<close> copies the columns \<^verbatim>\<open>perm[i1:i2]\<close>
  of every row; otherwise row \<open>ii\<close> is read through the permutation of group \<open>ii\<close>.
\<close>

definition block_init ::
  "gptq \<Rightarrow> nat list list \<Rightarrow> nat \<Rightarrow> nat \<Rightarrow> matrix \<Rightarrow> matrix \<times> matrix \<times> matrix" where
  "block_init s permutation_list i1 i2 wt =
     (let weight_block =
            (if groups s = 1
             then map (gather (slice i1 i2 (permutation_list ! 0))) wt
             else map2 (\<lambda>perm row. gather (slice i1 i2 perm) row) permutation_list wt);
          error_block = map (\<lambda>row. map (\<lambda>_. 0) row) weight_block
      in (wt, weight_block, error_block))"

text \<open>Lines 290--333 for the block starting at \<open>i1\<close>.\<close>

definition process_block ::
  "gptq \<Rightarrow> tensor3 \<Rightarrow> nat list list \<Rightarrow> nat \<Rightarrow> matrix \<Rightarrow> matrix" where
  "process_block s h_inv permutation_list i1 wt =
     (let i2 = min (i1 + blocksize s) (columns s);
          count = i2 - i1;
          (weight1, weight_block1, error_block1) =
            fold (column_step s h_inv permutation_list i1 i2) [0..<count]
              (block_init s permutation_list i1 i2 wt)
      in propagate s h_inv permutation_list i1 i2 error_block1 weight1)"

text \<open>\<^verbatim>\<open>range(0, columns, blocksize)\<close> for a positive step.\<close>

definition block_starts :: "nat \<Rightarrow> nat \<Rightarrow> nat list" where
  "block_starts c bs = map (\<lambda>k. k * bs) [0..<ceil_div c bs]"

definition warning_text :: "string \<Rightarrow> string" where
  "warning_text nm =
     ''Failed to compute the inverse of the Hessian for layer '' @ nm @
     '' GPTQ will not be applied. '' @
     ''Increasing the number of samples might fix this issue''"

text \<open>
  \<^verbatim>\<open>single_layer_update\<close>: what the call raises or that it returns, the state it
  leaves, and the warnings it emits. The weights are written in place, so the
  zeroing of the dead columns precedes the \<^verbatim>\<open>try\<close>; \<^verbatim>\<open>del self.H\<close> runs on every way
  out of the \<^verbatim>\<open>try\<close>. \<^verbatim>\<open>range\<close> raises \<^verbatim>\<open>ValueError\<close> on a zero step.
\<close>

definition single_layer_update ::
  "linalg \<Rightarrow> real \<Rightarrow> gptq \<Rightarrow> (exn + unit) \<times> gptq \<times> string list" where
  "single_layer_update la percdamp s =
     (case H s of
        None \<Rightarrow> (Inl AttributeError, s, [])
      | Some h \<Rightarrow>
         (let (h1, w1, permutation_list) = dead_and_order s h (weight (layer s));
              s1 = s\<lparr>layer := (layer s)\<lparr>weight := w1\<rparr>, H := None\<rparr>
          in case invert_groups la percdamp [0..<groups s] h1 of
               None \<Rightarrow> (Inr (), s1, [warning_text (name s)])
             | Some h_inv \<Rightarrow>
                 if blocksize s = 0 then (Inl ValueError, s1, [])
                 else
                   (Inr (),
                    s1\<lparr>layer := (layer s1)\<lparr>weight :=
                         fold (process_block s h_inv permutation_list)
                           (block_starts (columns s) (blocksize s)) w1\<rparr>\<rparr>,
                    [])))"

subsection \<open>The session: \<^verbatim>\<open>gptq_mode\<close>\<close>

text \<open>
  The model as the session touches it. Its forward entry point is either a function
  of the model or the bound method \<^verbatim>\<open>catch_stopfwd\<close> of a session, which holds the
  entry point it replaced. A module is a quantized layer or any other module, with
  its forward hooks and the number of its forward pre-hooks; a hook is either
  foreign to the session or \<^verbatim>\<open>partial(gptq.update_batch, ...)\<close> of the \<^verbatim>\<open>GPTQ\<close> of
  that name.
\<close>

datatype 'f entry = Forward 'f | Catch_stopfwd "'f entry"

datatype hook = Foreign nat | Update_batch string

record module =
  mod_layer :: "layer option"
  forward_hooks :: "hook list"
  forward_pre_hooks :: nat

text \<open>
  Modelled from the spec: \<^verbatim>\<open>DisableEnableQuantization\<close> of
  \<^verbatim>\<open>brevitas.graph.calibrate\<close> is not in the source at hand; the spec describes it as
  a pair of toggles, \<^verbatim>\<open>disable()\<close>/\<^verbatim>\<open>enable()\<close>, for activation and for bias
  quantization. They are the two flags of the model below.
\<close>

record 'f model =
  forward :: "'f entry"
  named_modules :: "(string \<times> module) list"
  act_quantization :: bool
  bias_quantization :: bool

record 'f gptq_mode =
  model :: "'f model"
  use_quant_activations :: bool
  hook_dict :: "(string \<times> hook) list"
  gptq_layers :: "(string \<times> gptq) list"
  current_layer :: layer_handler
  num_layers :: nat
  mode_act_order :: bool
  mode_num_blocks :: nat
  orig_forward :: "'f entry"

text \<open>
  \<^verbatim>\<open>gptq_mode.__init__\<close>. With \<^verbatim>\<open>inplace=False\<close> the session works on a deep copy,
  which is the same value here.
\<close>

definition gptq_mode_init :: "'f model \<Rightarrow> bool \<Rightarrow> bool \<Rightarrow> nat \<Rightarrow> bool \<Rightarrow> 'f gptq_mode" where
  "gptq_mode_init m inplace uqa nb ao =
     \<lparr> model = m\<lparr>forward := Catch_stopfwd (forward m)\<rparr>,
       use_quant_activations = uqa, hook_dict = [], gptq_layers = [],
       current_layer = \<lparr>layer_name = None\<rparr>, num_layers = 0,
       mode_act_order = ao, mode_num_blocks = nb, orig_forward = forward m \<rparr>"

text \<open>\<^verbatim>\<open>_is_module_supported\<close>; \<^verbatim>\<open>out_channels\<close> is the number of weight rows.\<close>

definition is_module_supported :: "module \<Rightarrow> bool" where
  "is_module_supported m =
     (case mod_layer m of
        None \<Rightarrow> False
      | Some l \<Rightarrow>
          if kind l = QuantConv2d \<and> (conv_groups l = 1 \<or> conv_groups l = length (weight l))
          then True
          else if kind l = QuantLinear then True
          else False)"

definition hooks_warning :: string where
  "hooks_warning =
     ''Hooks detected during setup for GPTQ. '' @
     ''Behaviour might deviate from what expected.''"

text \<open>
  \<^verbatim>\<open>__enter__\<close>: the loop over \<^verbatim>\<open>named_modules()\<close>, on the modules still to visit, the
  modules visited, the session and the warnings so far; then the toggles and
  \<^verbatim>\<open>num_layers\<close>.
\<close>

fun attach_hooks ::
  "(string \<times> module) list \<Rightarrow> (string \<times> module) list \<Rightarrow> 'f gptq_mode \<Rightarrow> string list \<Rightarrow>
   exn + ((string \<times> module) list \<times> 'f gptq_mode \<times> string list)" where
  "attach_hooks [] done g ws = Inr (done, g, ws)"
| "attach_hooks ((nm, m) # rest) done g ws =
     (let ws1 = (if length (forward_hooks m) > 0 \<or> forward_pre_hooks m \<noteq> 0
                 then ws @ [hooks_warning] else ws)
      in if is_module_supported m
         then (case gptq_init (the (mod_layer m)) nm (mode_num_blocks g) (mode_act_order g) of
                 Inl e \<Rightarrow> Inl e
               | Inr gp \<Rightarrow>
                   attach_hooks rest
                     (done @ [(nm, m\<lparr>forward_hooks := forward_hooks m @ [Update_batch nm]\<rparr>)])
                     (g\<lparr>hook_dict := AList.update nm (Update_batch nm) (hook_dict g),
                        gptq_layers := AList.update nm gp (gptq_layers g)\<rparr>)
                     ws1)
         else attach_hooks rest (done @ [(nm, m)]) g ws1)"

definition enter :: "'f gptq_mode \<Rightarrow> exn + ('f gptq_mode \<times> string list)" where
  "enter g =
     (case attach_hooks (named_modules (model g)) [] g [] of
        Inl e \<Rightarrow> Inl e
      | Inr (ms, g1, ws) \<Rightarrow>
          (let m1 = (model g1)\<lparr>named_modules := ms\<rparr>;
               m2 = (if \<not> use_quant_activations g1
                     then m1\<lparr>act_quantization := False, bias_quantization := False\<rparr>
                     else m1)
           in Inr (g1\<lparr>model := m2, num_layers := length (gptq_layers g1)\<rparr>, ws)))"

text \<open>
  \<^verbatim>\<open>__exit__(type, value, traceback)\<close>: the arguments say how the scope was left
  (\<open>None\<close> for a normal exit) and are not read.
\<close>

definition exit_mode :: "'f gptq_mode \<Rightarrow> exn option \<Rightarrow> 'f gptq_mode" where
  "exit_mode g exc =
     (let m1 = (model g)\<lparr>forward := orig_forward g\<rparr>;
          m2 = (if \<not> use_quant_activations g
                then m1\<lparr>act_quantization := True, bias_quantization := True\<rparr>
                else m1)
      in g\<lparr>model := m2\<rparr>)"

text \<open>
  \<^verbatim>\<open>update\<close>: the update of the current layer, then the removal of its hook. The
  \<^verbatim>\<open>GPTQ\<close> object and the module share the layer, so the corrected weights are
  written to both.
\<close>

definition remove_hook :: "hook \<Rightarrow> module \<Rightarrow> module" where
  "remove_hook hk m = m\<lparr>forward_hooks := remove1 hk (forward_hooks m)\<rparr>"

definition update ::
  "linalg \<Rightarrow> 'f gptq_mode \<Rightarrow> (exn + unit) \<times> 'f gptq_mode \<times> string list" where
  "update la g =
     (case layer_name (current_layer g) of
        None \<Rightarrow> (Inl KeyError, g, [])
      | Some nm \<Rightarrow>
         (case map_of (gptq_layers g) nm of
            None \<Rightarrow> (Inl KeyError, g, [])
          | Some gp \<Rightarrow>
             (let (r, gp1, ws) = single_layer_update la (1 / 100) gp;
                  ms1 = map (\<lambda>(n, m). if n = nm then (n, m\<lparr>mod_layer := Some (layer gp1)\<rparr>)
                                        else (n, m)) (named_modules (model g));
                  g1 = g\<lparr>gptq_layers := AList.update nm gp1 (gptq_layers g),
                         model := (model g)\<lparr>named_modules := ms1\<rparr>\<rparr>
              in case r of
                   Inl e \<Rightarrow> (Inl e, g1, ws)
                 | Inr _ \<Rightarrow>
                    (case map_of (hook_dict g1) nm of
                       None \<Rightarrow> (Inl KeyError, g1, ws)
                     | Some hk \<Rightarrow>
                        (Inr (),
                         g1\<lparr>model := (model g1)\<lparr>named_modules :=
                              map (\<lambda>(n, m). if n = nm then (n, remove_hook hk m) else (n, m))
                                (named_modules (model g1))\<rparr>\<rparr>,
                         ws)))))"

subsection \<open>Exact linear algebra and quantizers for the examples\<close>

text \<open>
  The primitives in exact arithmetic, used where a statement is evaluated on a
  concrete layer: the Cholesky factor row by row, failing on a pivot that is not
  positive; the inverse of \<open>L L\<^sup>T\<close> from the inverse of \<open>L\<close> by forward
  substitution; the upper factor as the transpose of the lower one.
\<close>

fun chol_prefix :: "matrix \<Rightarrow> real list \<Rightarrow> real list \<Rightarrow> real list" where
  "chol_prefix [] a acc = acc"
| "chol_prefix (l # ls) a acc =
     (let j = length acc
      in chol_prefix ls a (acc @ [(a ! j - dot acc (take j l)) / l ! j]))"

fun chol_rows :: "nat \<Rightarrow> matrix \<Rightarrow> matrix \<Rightarrow> matrix option" where
  "chol_rows n [] ls = Some ls"
| "chol_rows n (a # as) ls =
     (let i = length ls;
          pre = chol_prefix ls a [];
          pivot = a ! i - dot pre pre
      in if 0 < pivot
         then chol_rows n as (ls @ [pre @ sqrt pivot # replicate (n - i - 1) 0])
         else None)"

definition chol_lower :: "matrix \<Rightarrow> matrix option" where
  "chol_lower A = chol_rows (length A) A []"

fun forward_subst :: "matrix \<Rightarrow> real list \<Rightarrow> real list \<Rightarrow> real list" where
  "forward_subst (l # ls) (b # bs) y =
     (let i = length y in forward_subst ls bs (y @ [(b - dot (take i l) y) / l ! i]))"
| "forward_subst ls bs y = y"

definition unit_vec :: "nat \<Rightarrow> nat \<Rightarrow> real list" where
  "unit_vec n j = map (\<lambda>i. if i = j then 1 else 0) [0..<n]"

definition chol_inverse :: "matrix \<Rightarrow> matrix" where
  "chol_inverse L =
     gram (map (\<lambda>j. forward_subst L (unit_vec (length L) j) []) [0..<length L])"

definition transpose_sq :: "matrix \<Rightarrow> matrix" where
  "transpose_sq A = map (\<lambda>j. map (\<lambda>r. r ! j) A) [0..<length A]"

definition exact_linalg :: linalg where
  "exact_linalg =
     \<lparr> cholesky = (\<lambda>upper A. if upper then map_option transpose_sq (chol_lower A)
                              else chol_lower A),
       cholesky_inverse = chol_inverse \<rparr>"

text \<open>
  Two quantizers: rounding to the nearest multiple of 1/2, and the binary (sign)
  quantizer, whose grid \<open>{-1, 1}\<close> does not hold 0.
\<close>

definition round_half :: "matrix \<Rightarrow> matrix" where
  "round_half W = map (map (\<lambda>x. real_of_int (round (2 * x)) / 2)) W"

definition binary_sign :: "matrix \<Rightarrow> matrix" where
  "binary_sign W = map (map (\<lambda>x. if 0 \<le> x then 1 else - 1)) W"

subsection \<open>Well-formed states and inputs\<close>

text \<open>
  The accumulator has the shape \<open>[groups, columns, columns]\<close> that \<^verbatim>\<open>__init__\<close> gives
  it, and a \<^verbatim>\<open>QuantLinear\<close> has one group.
\<close>

definition shape_ok :: "gptq \<Rightarrow> bool" where
  "shape_ok s \<longleftrightarrow>
     (case H s of
        None \<Rightarrow> False
      | Some h \<Rightarrow> length h = groups s \<and> list_all (square (columns s)) h) \<and>
     (kind (layer s) = QuantLinear \<longrightarrow> groups s = 1)"

text \<open>A matrix of \<open>c\<close> rows of one length, as every tensor is.\<close>

definition rect :: "nat \<Rightarrow> matrix \<Rightarrow> bool" where
  "rect c u \<longleftrightarrow> length u = c \<and> list_all (\<lambda>r. length r = shape1 u) u"

text \<open>
  A batched input of the rank the layer takes: \<open>[B, S, columns]\<close> for a
  \<^verbatim>\<open>QuantLinear\<close>, and for a \<^verbatim>\<open>QuantConv2d\<close> a batch \<open>[B, C, H, W]\<close> whose unfolded
  pieces are tensors of \<open>columns\<close> rows.
\<close>

fun batch_ok :: "gptq \<Rightarrow> tensor \<Rightarrow> bool" where
  "batch_ok s (T3 b) \<longleftrightarrow>
     kind (layer s) = QuantLinear \<and> list_all (list_all (\<lambda>row. length row = columns s)) b"
| "batch_ok s (T4 b) \<longleftrightarrow>
     kind (layer s) = QuantConv2d \<and>
     list_all (\<lambda>x. list_all (\<lambda>i. rect (columns s) (unfold (layer s) (chunk (groups s) i x)))
                      [0..<groups s]) b"
| "batch_ok s (T2 m) \<longleftrightarrow> False"

text \<open>\<^verbatim>\<open>torch.cat\<close> of two batches along the batch dimension.\<close>

fun tcat :: "tensor \<Rightarrow> tensor \<Rightarrow> tensor option" where
  "tcat (T2 a) (T2 b) = Some (T2 (a @ b))"
| "tcat (T3 a) (T3 b) = Some (T3 (a @ b))"
| "tcat (T4 a) (T4 b) = Some (T4 (a @ b))"
| "tcat _ _ = None"

text \<open>
  The accumulator after one update from \<open>h\<close>: scaled by \<open>c\<close>, plus the Gram matrices
  of the input scaled by \<open>a\<close>.
\<close>

definition step_h :: "real \<Rightarrow> real \<Rightarrow> tensor3 \<Rightarrow> tensor3 \<Rightarrow> tensor3" where
  "step_h c a h X = map2 madd (map (mscale c) h) (map gram (map (mscale a) X))"

definition proc_ok :: "nat \<Rightarrow> nat \<Rightarrow> tensor3 \<Rightarrow> bool" where
  "proc_ok G C X \<longleftrightarrow> length X = G \<and> list_all (rect C) X"

text \<open>
  The claimed invariant of the accumulator, and the states that \<^verbatim>\<open>__init__\<close> and
  any number of calls of \<^verbatim>\<open>update_batch\<close> lead to.
\<close>

definition hessian_ok :: "gptq \<Rightarrow> bool" where
  "hessian_ok s \<longleftrightarrow>
     (case H s of
        None \<Rightarrow> False
      | Some h \<Rightarrow>
          length h = groups s \<and>
          list_all (\<lambda>A. square (columns s) A \<and> symmetric A \<and> list_all (\<lambda>x. 0 \<le> x) (diag A)) h)"

definition inv :: "gptq \<Rightarrow> bool" where
  "inv s \<longleftrightarrow> hessian_ok s \<and> (kind (layer s) = QuantLinear \<longrightarrow> groups s = 1)"

inductive reachable :: "gptq \<Rightarrow> bool" where
  init: "gptq_init l nm nb ao = Inr s \<Longrightarrow> reachable s"
| step: "reachable s \<Longrightarrow> update_batch s inp cl = (e, s', cl') \<Longrightarrow> reachable s'"

subsection \<open>Example layers\<close>

text \<open>
  A \<^verbatim>\<open>QuantLinear\<close> with two input features and one output channel, quantized to
  multiples of 1/2, as \<^verbatim>\<open>GPTQ.__init__\<close> leaves it with \<^verbatim>\<open>num_blocks = 1\<close>.
\<close>

definition fc_layer :: layer where
  "fc_layer = \<lparr> kind = QuantLinear, conv_groups = 1, weight = [[1, 3]],
                unfold = (\<lambda>x. []), quant_weight = round_half \<rparr>"

definition fc_state :: gptq where
  "fc_state = \<lparr> layer = fc_layer, name = ''fc'', num_blocks = 1, act_order = False,
                groups = 1, rows = 1, columns = 2, blocksize = 2,
                H = Some [[[0, 0], [0, 0]]], nsamples = 0 \<rparr>"

definition no_layer :: layer_handler where
  "no_layer = \<lparr> layer_name = None \<rparr>"

text \<open>
  A forward pass that reaches the hooked layer: the hook raises what
  \<^verbatim>\<open>update_batch\<close> raises, and nothing is returned.
\<close>

definition hooked_forward :: "hook_input \<Rightarrow> gptq \<Rightarrow> (exn + real option) \<times> gptq" where
  "hooked_forward inp s = (case update_batch s inp no_layer of (e, s', cl) \<Rightarrow> (Inl e, s'))"

text \<open>
  A model of one \<^verbatim>\<open>QuantLinear\<close> named \<open>fc\<close>, without hooks, with quantization enabled;
  and the session built on it with the default arguments, after \<^verbatim>\<open>__enter__\<close>.
\<close>

definition fc_model :: "nat model" where
  "fc_model = \<lparr> forward = Forward 0,
                named_modules =
                  [(''fc'', \<lparr> mod_layer = Some fc_layer, forward_hooks = [],
                             forward_pre_hooks = 0 \<rparr>)],
                act_quantization = True, bias_quantization = True \<rparr>"

definition fc_entered :: "nat gptq_mode" where
  "fc_entered =
     \<lparr> model = \<lparr> forward = Catch_stopfwd (Forward 0),
                 named_modules =
                   [(''fc'', \<lparr> mod_layer = Some fc_layer,
                              forward_hooks = [Update_batch ''fc''],
                              forward_pre_hooks = 0 \<rparr>)],
                 act_quantization = True, bias_quantization = True \<rparr>,
       use_quant_activations = True,
       hook_dict = [(''fc'', Update_batch ''fc'')],
       gptq_layers = [(''fc'', fc_state\<lparr>num_blocks := 4, blocksize := 1\<rparr>)],
       current_layer = \<lparr>layer_name = None\<rparr>, num_layers = 1,
       mode_act_order = False, mode_num_blocks = 4, orig_forward = Forward 0 \<rparr>"

text \<open>
  The sessions on a model \<open>m\<close>: constructed, entered, and advanced by hooks (which
  write the \<^verbatim>\<open>GPTQ\<close> states and the current-layer cell) and by \<^verbatim>\<open>update\<close>.
\<close>

inductive session_of :: "'f model \<Rightarrow> 'f gptq_mode \<Rightarrow> bool" where
  created: "session_of m (gptq_mode_init m inplace uqa nb ao)"
| entered: "session_of m g \<Longrightarrow> enter g = Inr (g', ws) \<Longrightarrow> session_of m g'"
| observed: "session_of m g \<Longrightarrow>
             session_of m (g\<lparr>gptq_layers := gl, current_layer := cl\<rparr>)"
| updated: "session_of m g \<Longrightarrow> update la g = (r, g', ws) \<Longrightarrow> session_of m g'"

text \<open>
  A layer state as \<^verbatim>\<open>__init__\<close> builds it on an eligible layer: a well-shaped
  accumulator, at least one group, weights of shape \<open>[rows, columns]\<close>, and, for a
  grouped convolution, as many groups as output channels.
\<close>

definition layer_ok :: "gptq \<Rightarrow> bool" where
  "layer_ok s \<longleftrightarrow>
     shape_ok s \<and> 0 < groups s \<and>
     length (weight (layer s)) = rows s \<and>
     list_all (\<lambda>row. length row = columns s) (weight (layer s)) \<and>
     (groups s > 1 \<longrightarrow> rows s = groups s)"

text \<open>The group whose accumulator goes with weight row \<open>r\<close>.\<close>

definition group_of :: "gptq \<Rightarrow> nat \<Rightarrow> nat" where
  "group_of s r = (if groups s > 1 then r else 0)"

text \<open>
  A layer that \<^verbatim>\<open>_is_module_supported\<close> accepts, with its weights a tensor: a
  \<^verbatim>\<open>QuantLinear\<close>, or a \<^verbatim>\<open>QuantConv2d\<close> with one group or one group per output channel.
\<close>

definition eligible :: "layer \<Rightarrow> bool" where
  "eligible l \<longleftrightarrow>
     list_all (\<lambda>row. length row = shape1 (weight l)) (weight l) \<and>
     (kind l = QuantConv2d \<longrightarrow>
        conv_groups l = 1 \<or> (conv_groups l = length (weight l) \<and> 0 < conv_groups l))"

text \<open>The permutation that lines 243--250 and 260--267 compute for one group.\<close>

definition perm_of :: "bool \<Rightarrow> nat \<Rightarrow> matrix \<Rightarrow> nat list" where
  "perm_of ao c A =
     (if ao then argsort_desc (diag (set_dead_diag (dead_mask A) A)) else [0..<c])"

text \<open>
  Three states of the example layer after calibration. In \<open>dead_state\<close> the first
  input feature was never active and the layer has a binary quantizer. In
  \<open>fail_state\<close> the first of three features was never active and the rest of the
  accumulator is indefinite, so that the damped matrix has no Cholesky factor. In
  \<open>order_state\<close> activation ordering is on.
\<close>

definition dead_state :: gptq where
  "dead_state = fc_state\<lparr> layer := fc_layer\<lparr>quant_weight := binary_sign\<rparr>,
                          H := Some [[[0, 0], [0, 2]]], nsamples := 1 \<rparr>"

definition fail_state :: gptq where
  "fail_state = fc_state\<lparr> layer := fc_layer\<lparr>weight := [[5, 1, 2]]\<rparr>, columns := 3,
                          blocksize := 3,
                          H := Some [[[0, 0, 0], [0, 1, 11], [0, 11, 61]]], nsamples := 1 \<rparr>"

definition order_state :: gptq where
  "order_state = fc_state\<lparr> act_order := True, H := Some [[[1 / 2, 0], [0, 0]]],
                           nsamples := 1 \<rparr>"

text \<open>
  A session of two dense layers inside the scope, at the moment the hook of the
  first one has fired: the current layer is \<^verbatim>\<open>fc\<close>, whose state is \<open>fail_state\<close>; the
  second layer \<^verbatim>\<open>fc2\<close> still waits with its hook attached.
\<close>

definition fail_session :: "nat gptq_mode" where
  "fail_session =
     \<lparr> model = \<lparr> forward = Catch_stopfwd (Forward 0),
                 named_modules =
                   [(''fc'', \<lparr> mod_layer = Some (layer fail_state),
                              forward_hooks = [Update_batch ''fc''],
                              forward_pre_hooks = 0 \<rparr>),
                    (''fc2'', \<lparr> mod_layer = Some fc_layer,
                               forward_hooks = [Update_batch ''fc2''],
                               forward_pre_hooks = 0 \<rparr>)],
                 act_quantization = True, bias_quantization = True \<rparr>,
       use_quant_activations = True,
       hook_dict = [(''fc'', Update_batch ''fc''), (''fc2'', Update_batch ''fc2'')],
       gptq_layers = [(''fc'', fail_state), (''fc2'', fc_state\<lparr>name := ''fc2''\<rparr>)],
       current_layer = \<lparr>layer_name = Some ''fc''\<rparr>, num_layers = 2,
       mode_act_order = False, mode_num_blocks = 1, orig_forward = Forward 0 \<rparr>"

text \<open>
  The diagonal entry of column \<open>i\<close> as the sort of lines 246 and 263 reads it: the
  accumulator's own entry, or 1 where lines 240 and 257 have just replaced a 0.
\<close>

definition ordering_key :: "matrix \<Rightarrow> nat \<Rightarrow> real" where
  "ordering_key A i = (if A ! i ! i = 0 then 1 else A ! i ! i)"

subsection \<open>Error propagation within a block\<close>

text \<open>
  The state of the loop of lines 306--323 after its first \<open>k\<close> passes over the block
  starting at \<open>i1\<close>, and the quantized column \<open>q\<close> that pass \<open>i\<close> reads (line 309).
\<close>

definition block_end :: "gptq \<Rightarrow> nat \<Rightarrow> nat" where
  "block_end s i1 = min (i1 + blocksize s) (columns s)"

definition columns_done ::
  "gptq \<Rightarrow> tensor3 \<Rightarrow> nat list list \<Rightarrow> nat \<Rightarrow> nat \<Rightarrow> matrix \<Rightarrow> matrix \<times> matrix \<times> matrix" where
  "columns_done s h_inv permutation_list i1 k wt =
     fold (column_step s h_inv permutation_list i1 (block_end s i1)) [0..<k]
       (block_init s permutation_list i1 (block_end s i1) wt)"

definition quant_read ::
  "gptq \<Rightarrow> tensor3 \<Rightarrow> nat list list \<Rightarrow> nat \<Rightarrow> nat \<Rightarrow> matrix \<Rightarrow> real list" where
  "quant_read s h_inv permutation_list i1 i wt =
     get_quant_weights s (fst (columns_done s h_inv permutation_list i1 i wt))
       i i1 (block_end s i1) permutation_list"

text \<open>
  What the spec asks of a finished block: every column \<open>i\<close> of the block holds, in
  every row \<open>r\<close> and at the place the permutation of the row's group gives it, the
  quantized value that pass \<open>i\<close> read for that row.
\<close>

definition block_conserved ::
  "gptq \<Rightarrow> tensor3 \<Rightarrow> nat list list \<Rightarrow> nat \<Rightarrow> matrix \<Rightarrow> bool" where
  "block_conserved s h_inv permutation_list i1 wt \<longleftrightarrow>
     list_all (\<lambda>i. list_all (\<lambda>r.
         process_block s h_inv permutation_list i1 wt ! r
           ! (permutation_list ! (group_of s r) ! (i1 + i))
         = quant_read s h_inv permutation_list i1 i wt ! r) [0..<rows s])
       [0..<block_end s i1 - i1]"

text \<open>
  A depthwise \<^verbatim>\<open>QuantConv2d\<close> with two groups of two columns, quantized to multiples
  of 1/2, calibrated with activation ordering and \<^verbatim>\<open>num_blocks = 2\<close>; the two groups
  have seen their two features with opposite energies.
\<close>

definition dw_layer :: layer where
  "dw_layer = \<lparr> kind = QuantConv2d, conv_groups = 2, weight = [[1 / 5, 3], [2, 7 / 10]],
                unfold = concat, quant_weight = round_half \<rparr>"

definition dw_state :: gptq where
  "dw_state = \<lparr> layer = dw_layer, name = ''dw'', num_blocks = 2, act_order = True,
                groups = 2, rows = 2, columns = 2, blocksize = 1,
                H = Some [[[803 / 202, 0], [0, 197 / 202]], [[197 / 202, 0], [0, 803 / 202]]],
                nsamples = 1 \<rparr>"

section \<open>Properties\<close>

subsection \<open>The Hessian accumulator\<close>

lemma dot_commute: "dot xs ys = dot ys xs"
  unfolding dot_def
proof (induction xs arbitrary: ys)
  case Nil then show ?case by simp
next
  case (Cons x xs) then show ?case by (cases ys) (simp_all add: mult.commute)
qed

lemma dot_self_nonneg: "0 \<le> dot xs xs"
  unfolding dot_def by (induction xs) simp_all

lemma dot_scale: "dot (map ((*) c) xs) (map ((*) c) ys) = c * c * dot xs ys"
  unfolding dot_def
proof (induction xs arbitrary: ys)
  case Nil then show ?case by simp
next
  case (Cons x xs) then show ?case by (cases ys) (simp_all add: algebra_simps)
qed

lemma dot_append:
  "length a1 = length b1 \<Longrightarrow> dot (a1 @ a2) (b1 @ b2) = dot a1 b1 + dot a2 b2"
  unfolding dot_def by simp

lemma dot_sum:
  "length xs = length ys \<Longrightarrow> dot xs ys = (\<Sum>k<length xs. xs ! k * ys ! k)"
  unfolding dot_def
proof (induction xs ys rule: list_induct2)
  case Nil then show ?case by simp
next
  case (Cons x xs y ys)
  then show ?case by (simp add: sum.lessThan_Suc_shift del: sum.lessThan_Suc)
qed

lemma gram_nth:
  "i < length X \<Longrightarrow> j < length X \<Longrightarrow> gram X ! i ! j = dot (X ! i) (X ! j)"
  by (simp add: gram_def)

lemma square_gram: "square (length X) (gram X)"
  by (simp add: square_def gram_def list_all_iff)

lemma square_nth: "square n A \<Longrightarrow> i < n \<Longrightarrow> length (A ! i) = n"
  by (simp add: square_def list_all_length)

lemma square_mscale: "square n A \<Longrightarrow> square n (mscale c A)"
  by (simp add: square_def mscale_def list_all_iff)

lemma square_madd: "square n A \<Longrightarrow> square n B \<Longrightarrow> square n (madd A B)"
  by (auto simp add: square_def madd_def list_all_length)

lemma mscale_nth:
  "square n A \<Longrightarrow> i < n \<Longrightarrow> j < n \<Longrightarrow> mscale c A ! i ! j = c * A ! i ! j"
  by (simp add: square_def mscale_def list_all_length)

lemma madd_nth:
  "square n A \<Longrightarrow> square n B \<Longrightarrow> i < n \<Longrightarrow> j < n \<Longrightarrow>
   madd A B ! i ! j = A ! i ! j + B ! i ! j"
  by (simp add: square_def madd_def list_all_length)

lemma symmetric_iff:
  "symmetric A \<longleftrightarrow> (\<forall>i<length A. \<forall>j<length A. A ! i ! j = A ! j ! i)"
  by (auto simp add: symmetric_def list_all_iff)

lemma square_zeros: "square c (zeros c c)"
  by (simp add: square_def zeros_def list_all_iff)

lemma symmetric_zeros: "symmetric (zeros c c)"
  by (simp add: symmetric_iff zeros_def)

lemma diag_zeros: "list_all (\<lambda>x. 0 \<le> x) (diag (zeros c c))"
  by (simp add: diag_def zeros_def list_all_iff)

lemma list_all_replicate: "P x \<Longrightarrow> list_all P (replicate n x)"
  by (simp add: list_all_iff)

lemma inv_init: "gptq_init l nm nb ao = Inr s \<Longrightarrow> inv s"
  by (auto simp add: gptq_init_def inv_def hessian_ok_def Let_def
      square_zeros symmetric_zeros diag_zeros intro!: list_all_replicate split: if_splits)

lemma symmetric_step:
  assumes "square n A" "symmetric A" "length X = n"
  shows "symmetric (madd (mscale c A) (gram X))"
proof -
  have sq: "square n (mscale c A)" "square n (gram X)"
    using assms square_mscale square_gram by auto
  have len: "length (madd (mscale c A) (gram X)) = n"
    using square_madd[OF sq] by (simp add: square_def)
  have lenA: "length A = n" using assms by (simp add: square_def)
  show ?thesis
    unfolding symmetric_iff len
  proof (intro allI impI)
    fix i j assume ij: "i < n" "j < n"
    have "A ! i ! j = A ! j ! i" using assms(2) ij lenA by (simp add: symmetric_iff)
    then show "madd (mscale c A) (gram X) ! i ! j = madd (mscale c A) (gram X) ! j ! i"
      using ij assms sq
      by (simp add: madd_nth mscale_nth gram_nth dot_commute)
  qed
qed

lemma diag_step:
  assumes "square n A" "list_all (\<lambda>x. 0 \<le> x) (diag A)" "length X = n" "0 \<le> c"
  shows "list_all (\<lambda>x. 0 \<le> x) (diag (madd (mscale c A) (gram X)))"
proof -
  have sq: "square n (mscale c A)" "square n (gram X)"
    using assms square_mscale square_gram by auto
  have len: "length (madd (mscale c A) (gram X)) = n"
    using square_madd[OF sq] by (simp add: square_def)
  have lenA: "length A = n" using assms by (simp add: square_def)
  have d: "\<And>i. i < n \<Longrightarrow> 0 \<le> A ! i ! i"
    using assms(2) lenA by (simp add: diag_def list_all_iff)
  show ?thesis
    unfolding diag_def len
    using assms sq d by (simp add: list_all_iff madd_nth mscale_nth gram_nth dot_self_nonneg)
qed

lemma length_preprocess:
  "preprocess s t = Inr X \<Longrightarrow> (kind (layer s) = QuantLinear \<longrightarrow> groups s = 1) \<Longrightarrow>
   length X = groups s \<and> list_all (\<lambda>Xg. length Xg = columns s) X"
  by (cases t) (auto simp add: linear_processed_def conv_processed_def list_all_iff split: if_splits)

lemma hessian_update_Some:
  "H s = Some h \<Longrightarrow> nsamples s + b \<noteq> 0 \<Longrightarrow>
   hessian_update s b X =
     (StopFwdException,
      s\<lparr>H := Some (map2 madd (map (mscale (real (nsamples s) / real (nsamples s + b))) h)
                        (map gram (map (mscale (sqrt (2 / real (nsamples s + b)))) X))),
        nsamples := nsamples s + b\<rparr>)"
  by (simp add: hessian_update_def Let_def del: of_nat_add map_map)

lemma inv_hessian_update:
  assumes "inv s" "length X = groups s" "list_all (\<lambda>Xg. length Xg = columns s) X"
    and "hessian_update s b X = (e, s')"
  shows "inv s'"
proof -
  from assms(1) obtain h where h: "H s = Some h" "length h = groups s"
    "list_all (\<lambda>A. square (columns s) A \<and> symmetric A \<and> list_all (\<lambda>x. 0 \<le> x) (diag A)) h"
    by (auto simp add: inv_def hessian_ok_def split: option.splits)
  show ?thesis
  proof (cases "nsamples s + b = 0")
    case True
    then have "s' = s" using assms(4) h by (simp add: hessian_update_def)
    then show ?thesis using assms(1) by simp
  next
    case False
    define c where "c = real (nsamples s) / real (nsamples s + b)"
    define a where "a = sqrt (2 / real (nsamples s + b))"
    define h2 where "h2 = map2 madd (map (mscale c) h) (map gram (map (mscale a) X))"
    have s': "s' = s\<lparr>H := Some h2, nsamples := nsamples s + b\<rparr>"
      using assms(4) hessian_update_Some[OF h(1) False, of X]
      by (simp add: c_def a_def h2_def del: of_nat_add map_map)
    have c0: "0 \<le> c" by (simp add: c_def)
    have len: "length h2 = groups s" using h(2) assms(2) by (simp add: h2_def)
    have "square (columns s) (h2 ! g) \<and> symmetric (h2 ! g) \<and> list_all (\<lambda>x. 0 \<le> x) (diag (h2 ! g))"
      if g: "g < groups s" for g
    proof -
      have A: "square (columns s) (h ! g)" "symmetric (h ! g)" "list_all (\<lambda>x. 0 \<le> x) (diag (h ! g))"
        using h(2,3) g by (simp_all add: list_all_length)
      have X: "length (mscale a (X ! g)) = columns s"
        using assms(2,3) g by (simp add: list_all_length mscale_def)
      have eq: "h2 ! g = madd (mscale c (h ! g)) (gram (mscale a (X ! g)))"
        using g h(2) assms(2) by (simp add: h2_def)
      show ?thesis
        unfolding eq using symmetric_step[OF A(1,2) X] diag_step[OF A(1,3) X c0]
          square_madd[OF square_mscale[OF A(1)], of "gram (mscale a (X ! g))"] square_gram[of "mscale a (X ! g)"] X
        by simp
    qed
    then have "list_all (\<lambda>A. square (columns s) A \<and> symmetric A \<and> list_all (\<lambda>x. 0 \<le> x) (diag A)) h2"
      using len by (simp add: list_all_length)
    then show ?thesis using assms(1) len by (simp add: s' inv_def hessian_ok_def)
  qed
qed

lemma inv_update_batch:
  assumes "inv s" "update_batch s inp cl = (e, s', cl')"
  shows "inv s'"
proof (cases "preprocess s (unsqueeze_unbatched (inp_value inp))")
  case (Inl a)
  then have "s' = s" using assms(2) by (simp add: update_batch_def Let_def)
  then show ?thesis using assms(1) by simp
next
  case (Inr X)
  from length_preprocess[OF Inr] assms(1)
  have X: "length X = groups s" "list_all (\<lambda>Xg. length Xg = columns s) X"
    by (simp_all add: inv_def)
  obtain e1 s1 where hu: "hessian_update s (shape0 (unsqueeze_unbatched (inp_value inp))) X = (e1, s1)"
    by (cases "hessian_update s (shape0 (unsqueeze_unbatched (inp_value inp))) X") auto
  then have "s' = s1" using assms(2) Inr by (simp add: update_batch_def Let_def)
  then show ?thesis using inv_hessian_update[OF assms(1) X hu] by simp
qed

lemma reachable_inv: "reachable s \<Longrightarrow> inv s"
  by (induction rule: reachable.induct) (auto intro: inv_init inv_update_batch)

text \<open>
  Claim C7. In every state that \<^verbatim>\<open>GPTQ.__init__\<close> followed by any number of calls of
  \<^verbatim>\<open>update_batch\<close> (on any inputs, whatever each call raises) leads to, the
  accumulator is present, has one \<open>columns \<times> columns\<close> matrix per group, and each of
  them is symmetric with non-negative diagonal entries.
\<close>

theorem accumulator_symmetric_nonneg:
  "reachable s \<Longrightarrow>
   (\<exists>h. H s = Some h \<and> length h = groups s \<and>
        list_all (\<lambda>A. square (columns s) A \<and> symmetric A \<and> list_all (\<lambda>x. 0 \<le> x) (diag A)) h)"
  using reachable_inv[of s] by (auto simp add: inv_def hessian_ok_def split: option.splits)

lemma square_step:
  assumes "square n A" "length X = n"
  shows "square n (madd (mscale c A) (gram X))"
  using square_madd[OF square_mscale[OF assms(1)], of "gram X" c] square_gram[of X] assms(2)
  by simp

lemma step_entry:
  assumes "square n A" "length X = n" "i < n" "j < n"
  shows "madd (mscale c A) (gram (mscale a X)) ! i ! j =
         c * A ! i ! j + a * a * dot (X ! i) (X ! j)"
proof -
  have l: "length (mscale a X) = n" using assms(2) by (simp add: mscale_def)
  have "gram (mscale a X) ! i ! j = a * a * dot (X ! i) (X ! j)"
    using assms l by (simp add: gram_nth) (simp add: mscale_def dot_scale)
  then show ?thesis
    using assms square_mscale[OF assms(1), of c] square_gram[of "mscale a X"] l
    by (simp add: madd_nth mscale_nth)
qed

lemma matrix_eqI:
  assumes "square n A" "square n B" "\<And>i j. i < n \<Longrightarrow> j < n \<Longrightarrow> A ! i ! j = B ! i ! j"
  shows "A = B"
proof (rule nth_equalityI)
  show "length A = length B" using assms by (simp add: square_def)
next
  fix i assume "i < length A"
  then have i: "i < n" using assms(1) by (simp add: square_def)
  show "A ! i = B ! i"
  proof (rule nth_equalityI)
    show "length (A ! i) = length (B ! i)" using assms(1,2) i by (simp add: square_nth)
  next
    fix j assume "j < length (A ! i)"
    then have "j < n" using assms(1) i by (simp add: square_nth)
    then show "A ! i ! j = B ! i ! j" using assms(3) i by simp
  qed
qed

lemma step_h_shape:
  assumes "length h = G" "list_all (square C) h" "length X = G" "list_all (\<lambda>Xg. length Xg = C) X"
  shows "length (step_h c a h X) = G" "list_all (square C) (step_h c a h X)"
proof -
  show "length (step_h c a h X) = G" using assms by (simp add: step_h_def)
  have "square C (step_h c a h X ! g)" if "g < G" for g
  proof -
    have "length (mscale a (X ! g)) = C" using assms that by (simp add: list_all_length mscale_def)
    moreover have "square C (h ! g)" using assms that by (simp add: list_all_length)
    ultimately show ?thesis using assms that by (simp add: step_h_def square_step)
  qed
  then show "list_all (square C) (step_h c a h X)"
    using assms by (simp add: list_all_length step_h_def)
qed

lemma step_h_entry:
  assumes "length h = G" "list_all (square C) h" "length X = G" "list_all (\<lambda>Xg. length Xg = C) X"
    and "g < G" "i < C" "j < C"
  shows "step_h c a h X ! g ! i ! j = c * h ! g ! i ! j + a * a * dot (X ! g ! i) (X ! g ! j)"
proof -
  have "square C (h ! g)" "length (X ! g) = C" using assms by (simp_all add: list_all_length)
  then show ?thesis using assms by (simp add: step_h_def step_entry)
qed

lemma tensor3_eqI:
  assumes "length h = G" "length h' = G" "list_all (square C) h" "list_all (square C) h'"
    and "\<And>g i j. g < G \<Longrightarrow> i < C \<Longrightarrow> j < C \<Longrightarrow> h ! g ! i ! j = h' ! g ! i ! j"
  shows "h = h'"
proof (rule nth_equalityI)
  show "length h = length h'" using assms by simp
next
  fix g assume "g < length h"
  then have g: "g < G" using assms by simp
  have "square C (h ! g)" "square C (h' ! g)" using assms g by (simp_all add: list_all_length)
  then show "h ! g = h' ! g" using assms(5)[OF g] by (rule matrix_eqI)
qed

lemma proc_okD:
  assumes "proc_ok G C X"
  shows "length X = G" "list_all (\<lambda>Xg. length Xg = C) X"
    "\<And>g i j. g < G \<Longrightarrow> i < C \<Longrightarrow> j < C \<Longrightarrow> length (X ! g ! i) = length (X ! g ! j)"
  using assms by (auto simp add: proc_ok_def rect_def list_all_length)

lemma sqrt_self: "0 \<le> x \<Longrightarrow> sqrt x * sqrt x = x"
  by simp

lemma split_arith:
  fixes n1 n2 :: real
  assumes "n1 \<noteq> 0" "n2 \<noteq> 0"
  shows "n1 / n2 * (n / n1 * x + 2 / n1 * d1) + 2 / n2 * d2 = n / n2 * x + 2 / n2 * (d1 + d2)"
  using assms by (simp add: field_simps)

lemma hessian_split:
  assumes h: "length h = G" "list_all (square C) h"
    and X1: "proc_ok G C X1" and X2: "proc_ok G C X2" and X: "proc_ok G C X"
    and cat: "\<And>g i. g < G \<Longrightarrow> i < C \<Longrightarrow> X ! g ! i = X1 ! g ! i @ X2 ! g ! i"
    and n1: "n + b1 \<noteq> (0::nat)"
  shows "step_h (real (n + b1) / real (n + b1 + b2)) (sqrt (2 / real (n + b1 + b2)))
           (step_h (real n / real (n + b1)) (sqrt (2 / real (n + b1))) h X1) X2 =
         step_h (real n / real (n + (b1 + b2))) (sqrt (2 / real (n + (b1 + b2)))) h X"
    (is "step_h ?c2 ?a2 (step_h ?c1 ?a1 h X1) X2 = step_h ?c ?a h X")
proof (rule tensor3_eqI[where G = G and C = C])
  note s1 = step_h_shape[OF h proc_okD(1,2)[OF X1], of ?c1 ?a1]
  show "length (step_h ?c2 ?a2 (step_h ?c1 ?a1 h X1) X2) = G"
    "list_all (square C) (step_h ?c2 ?a2 (step_h ?c1 ?a1 h X1) X2)"
    using step_h_shape[OF s1 proc_okD(1,2)[OF X2]] by simp_all
  show "length (step_h ?c ?a h X) = G" "list_all (square C) (step_h ?c ?a h X)"
    using step_h_shape[OF h proc_okD(1,2)[OF X]] by simp_all
  fix g i j assume gij: "g < G" "i < C" "j < C"
  have d: "dot (X ! g ! i) (X ! g ! j) = dot (X1 ! g ! i) (X1 ! g ! j) + dot (X2 ! g ! i) (X2 ! g ! j)"
    using cat gij proc_okD(3)[OF X1 gij] by (simp add: dot_append)
  have e1: "step_h ?c1 ?a1 h X1 ! g ! i ! j
      = ?c1 * h ! g ! i ! j + ?a1 * ?a1 * dot (X1 ! g ! i) (X1 ! g ! j)"
    by (rule step_h_entry[OF h proc_okD(1,2)[OF X1] gij])
  have e2: "step_h ?c2 ?a2 (step_h ?c1 ?a1 h X1) X2 ! g ! i ! j
      = ?c2 * step_h ?c1 ?a1 h X1 ! g ! i ! j + ?a2 * ?a2 * dot (X2 ! g ! i) (X2 ! g ! j)"
    by (rule step_h_entry[OF s1 proc_okD(1,2)[OF X2] gij])
  have e: "step_h ?c ?a h X ! g ! i ! j
      = ?c * h ! g ! i ! j + ?a * ?a * dot (X ! g ! i) (X ! g ! j)"
    by (rule step_h_entry[OF h proc_okD(1,2)[OF X] gij])
  have a1: "?a1 * ?a1 = 2 / real (n + b1)" by (rule sqrt_self) simp
  have a2: "?a2 * ?a2 = 2 / real (n + b1 + b2)" by (rule sqrt_self) simp
  have a: "?a * ?a = 2 / real (n + (b1 + b2))" by (rule sqrt_self) simp
  have p1: "real (n + b1) \<noteq> 0" using n1 by (simp del: of_nat_add)
  have p2: "real (n + b1 + b2) \<noteq> 0" using n1 by (auto simp del: of_nat_add)
  let ?x = "h ! g ! i ! j" and ?d1 = "dot (X1 ! g ! i) (X1 ! g ! j)"
    and ?d2 = "dot (X2 ! g ! i) (X2 ! g ! j)"
  have "step_h ?c2 ?a2 (step_h ?c1 ?a1 h X1) X2 ! g ! i ! j =
        ?c2 * (?c1 * ?x + 2 / real (n + b1) * ?d1) + 2 / real (n + b1 + b2) * ?d2"
    by (simp only: e2 e1 a1 a2)
  also have "\<dots> = real n / real (n + b1 + b2) * ?x + 2 / real (n + b1 + b2) * (?d1 + ?d2)"
    by (rule split_arith[OF p1 p2])
  also have "\<dots> = step_h ?c ?a h X ! g ! i ! j"
    by (simp only: e d a add.assoc)
  finally show "step_h ?c2 ?a2 (step_h ?c1 ?a1 h X1) X2 ! g ! i ! j = step_h ?c ?a h X ! g ! i ! j" .
qed

lemma rect_linear: "rect c (map (\<lambda>f. map (\<lambda>row. row ! f) xs) [0..<c])"
  by (cases c) (simp_all add: rect_def shape1_def list_all_iff upt_conv_Cons del: upt_Suc)

lemma rect_conv:
  assumes "list_all (\<lambda>x. rect c (u x)) b"
  shows "rect c (map (\<lambda>r. concat (map (\<lambda>x. u x ! r) b)) [0..<c])"
proof -
  have len: "length (concat (map (\<lambda>x. u x ! r) b)) = sum_list (map (\<lambda>x. shape1 (u x)) b)"
    if "r < c" for r
  proof -
    have meq: "map (\<lambda>x. length (u x ! r)) b = map (\<lambda>x. shape1 (u x)) b"
      using assms that by (auto simp add: rect_def list_all_iff)
    have "length (concat (map (\<lambda>x. u x ! r) b)) = sum_list (map (\<lambda>x. length (u x ! r)) b)"
      by (simp add: length_concat comp_def)
    then show ?thesis by (simp only: meq)
  qed
  show ?thesis
  proof (cases c)
    case 0 then show ?thesis by (simp add: rect_def)
  next
    case (Suc k)
    have "shape1 (map (\<lambda>r. concat (map (\<lambda>x. u x ! r) b)) [0..<c])
          = sum_list (map (\<lambda>x. shape1 (u x)) b)"
      using len[of 0] Suc by (simp add: shape1_def upt_conv_Cons del: upt_Suc)
    then show ?thesis using len by (simp add: rect_def list_all_iff)
  qed
qed

lemma preprocess_ok:
  assumes "kind (layer s) = QuantLinear \<longrightarrow> groups s = 1" "batch_ok s t"
  shows "\<exists>X. preprocess s t = Inr X \<and> proc_ok (groups s) (columns s) X"
proof (cases t)
  case (T2 m) then show ?thesis using assms by simp
next
  case (T3 b)
  then show ?thesis using assms
    by (simp add: linear_processed_def proc_ok_def rect_linear)
next
  case (T4 b)
  have "rect (columns s)
          (map (\<lambda>r. concat (map (\<lambda>x. unfold (layer s) (chunk (groups s) i x) ! r) b))
               [0..<columns s])" if "i < groups s" for i
    using assms(2) T4 that by (intro rect_conv) (simp add: list_all_iff)
  then show ?thesis using assms T4
    by (simp add: conv_processed_def proc_ok_def list_all_iff)
qed

lemma preprocess_cat:
  assumes "batch_ok s t1" "batch_ok s t2" "tcat t1 t2 = Some t"
    and "preprocess s t1 = Inr X1" "preprocess s t2 = Inr X2" "preprocess s t = Inr X"
    and "kind (layer s) = QuantLinear \<longrightarrow> groups s = 1"
    and "g < groups s" "i < columns s"
  shows "X ! g ! i = X1 ! g ! i @ X2 ! g ! i"
proof (cases t1)
  case (T2 m) then show ?thesis using assms by simp
next
  case t1: (T3 b1)
  then obtain b2 where t2: "t2 = T3 b2" using assms(2,3) by (cases t2) auto
  then show ?thesis using assms t1 by (auto simp add: linear_processed_def)
next
  case t1: (T4 b1)
  then obtain b2 where t2: "t2 = T4 b2" using assms(2,3) by (cases t2) auto
  then show ?thesis using assms t1 by (auto simp add: conv_processed_def)
qed

lemma tcat_facts:
  assumes "batch_ok s t1" "batch_ok s t2" "tcat t1 t2 = Some t"
  shows "batch_ok s t" "shape0 t = shape0 t1 + shape0 t2"
    "unsqueeze_unbatched t1 = t1" "unsqueeze_unbatched t2 = t2" "unsqueeze_unbatched t = t"
  using assms by (cases t1; cases t2; auto)+

lemma update_batch_ok:
  assumes "H s = Some h" "batch_ok s t" "inp_value inp = t" "nsamples s + shape0 t \<noteq> 0"
    and "preprocess s t = Inr X"
  shows "update_batch s inp cl =
     (StopFwdException,
      s\<lparr>H := Some (step_h (real (nsamples s) / real (nsamples s + shape0 t))
                        (sqrt (2 / real (nsamples s + shape0 t))) h X),
        nsamples := nsamples s + shape0 t\<rparr>,
      cl\<lparr>layer_name := Some (name s)\<rparr>)"
proof -
  have u: "unsqueeze_unbatched t = t" using assms(2) by (cases t) auto
  show ?thesis
    using assms(3,5) u hessian_update_Some[OF assms(1,4), of X]
    by (simp add: update_batch_def Let_def step_h_def del: of_nat_add map_map)
qed

lemma preprocess_cong:
  "layer s' = layer s \<Longrightarrow> groups s' = groups s \<Longrightarrow> columns s' = columns s \<Longrightarrow>
   preprocess s' t = preprocess s t"
  by (cases t) (simp_all add: conv_processed_def)

text \<open>
  Claim C1, amended. A batch is an input whose leading dimension the source takes
  as the batch size: rank 3 for a \<^verbatim>\<open>QuantLinear\<close>, rank 4 for a \<^verbatim>\<open>QuantConv2d\<close>. From
  every layer state with a well-shaped accumulator, observing two non-empty batches
  one after the other leaves the same state, accumulator and sample count, as
  observing their concatenation in one call. From a sample count of 0 the
  accumulator after a batch of size \<open>N\<close> has, per group, the entries \<open>2/N\<close> times the
  sum over the samples (the columns of the processed input \<open>X\<close>) of the products
  \<open>X[i][k] * X[j][k]\<close>.
\<close>

theorem accumulator_invariant_to_batching:
  assumes ok: "shape_ok s"
    and b1: "batch_ok s (inp_value in1)" and b2: "batch_ok s (inp_value in2)"
    and cat: "tcat (inp_value in1) (inp_value in2) = Some (inp_value in12)"
    and pos: "0 < shape0 (inp_value in1)" "0 < shape0 (inp_value in2)"
  shows "fst (snd (update_batch (fst (snd (update_batch s in1 cl1))) in2 cl2)) =
           fst (snd (update_batch s in12 cl)) \<and>
         (nsamples s = 0 \<longrightarrow>
            (\<exists>X h'. preprocess s (inp_value in12) = Inr X \<and>
               H (fst (snd (update_batch s in12 cl))) = Some h' \<and>
               (\<forall>g<groups s. \<forall>i<columns s. \<forall>j<columns s.
                  h' ! g ! i ! j =
                    2 / real (shape0 (inp_value in12)) *
                    (\<Sum>k<length (X ! g ! i). X ! g ! i ! k * X ! g ! j ! k))))"
proof -
  let ?t1 = "inp_value in1" and ?t2 = "inp_value in2" and ?t = "inp_value in12"
  let ?G = "groups s" and ?C = "columns s" and ?n = "nsamples s"
  from ok obtain h where h: "H s = Some h" "length h = ?G" "list_all (square ?C) h"
    and lin: "kind (layer s) = QuantLinear \<longrightarrow> groups s = 1"
    by (auto simp add: shape_ok_def split: option.splits)
  note tf = tcat_facts[OF b1 b2 cat]
  obtain X1 where X1: "preprocess s ?t1 = Inr X1" "proc_ok ?G ?C X1"
    using preprocess_ok[OF lin b1] by auto
  obtain X2 where X2: "preprocess s ?t2 = Inr X2" "proc_ok ?G ?C X2"
    using preprocess_ok[OF lin b2] by auto
  obtain X where X: "preprocess s ?t = Inr X" "proc_ok ?G ?C X"
    using preprocess_ok[OF lin tf(1)] by auto
  let ?c1 = "real ?n / real (?n + shape0 ?t1)" and ?a1 = "sqrt (2 / real (?n + shape0 ?t1))"
  define s1 where "s1 = s\<lparr>H := Some (step_h ?c1 ?a1 h X1), nsamples := ?n + shape0 ?t1\<rparr>"
  have n1: "?n + shape0 ?t1 \<noteq> 0" using pos by simp
  have n12: "?n + shape0 ?t \<noteq> 0" using pos tf(2) by simp
  have u1: "update_batch s in1 cl1 = (StopFwdException, s1, cl1\<lparr>layer_name := Some (name s)\<rparr>)"
    unfolding s1_def by (rule update_batch_ok[OF h(1) b1 refl n1 X1(1)])
  have s1H: "H s1 = Some (step_h ?c1 ?a1 h X1)" and s1n: "nsamples s1 = ?n + shape0 ?t1"
    and s1k: "layer s1 = layer s" "groups s1 = groups s" "columns s1 = columns s" "name s1 = name s"
    by (simp_all add: s1_def)
  have b2': "batch_ok s1 ?t2" using b2 s1k by (cases ?t2) simp_all
  have X2': "preprocess s1 ?t2 = Inr X2"
    using X2(1) preprocess_cong[OF s1k(1,2,3), of ?t2] by simp
  have n2: "nsamples s1 + shape0 ?t2 \<noteq> 0" using pos s1n by simp
  have u2: "update_batch s1 in2 cl2 =
     (StopFwdException,
      s1\<lparr>H := Some (step_h (real (nsamples s1) / real (nsamples s1 + shape0 ?t2))
                        (sqrt (2 / real (nsamples s1 + shape0 ?t2))) (step_h ?c1 ?a1 h X1) X2),
         nsamples := nsamples s1 + shape0 ?t2\<rparr>,
      cl2\<lparr>layer_name := Some (name s1)\<rparr>)"
    by (rule update_batch_ok[OF s1H b2' refl n2 X2'])
  have u: "update_batch s in12 cl =
     (StopFwdException,
      s\<lparr>H := Some (step_h (real ?n / real (?n + shape0 ?t)) (sqrt (2 / real (?n + shape0 ?t))) h X),
        nsamples := ?n + shape0 ?t\<rparr>,
      cl\<lparr>layer_name := Some (name s)\<rparr>)"
    by (rule update_batch_ok[OF h(1) tf(1) refl n12 X(1)])
  have catX: "\<And>g i. g < ?G \<Longrightarrow> i < ?C \<Longrightarrow> X ! g ! i = X1 ! g ! i @ X2 ! g ! i"
    by (rule preprocess_cat[OF b1 b2 cat X1(1) X2(1) X(1) lin])
  have split: "step_h (real (?n + shape0 ?t1) / real (?n + shape0 ?t1 + shape0 ?t2))
                 (sqrt (2 / real (?n + shape0 ?t1 + shape0 ?t2))) (step_h ?c1 ?a1 h X1) X2 =
               step_h (real ?n / real (?n + (shape0 ?t1 + shape0 ?t2)))
                 (sqrt (2 / real (?n + (shape0 ?t1 + shape0 ?t2)))) h X"
    by (rule hessian_split[OF h(2,3) X1(2) X2(2) X(2) catX n1])
  have part1: "fst (snd (update_batch (fst (snd (update_batch s in1 cl1))) in2 cl2)) =
           fst (snd (update_batch s in12 cl))"
    unfolding u1 fst_conv snd_conv u2 u s1n tf(2) split
    by (simp add: s1_def add.assoc)
  have part2: "\<exists>X h'. preprocess s ?t = Inr X \<and>
               H (fst (snd (update_batch s in12 cl))) = Some h' \<and>
               (\<forall>g<?G. \<forall>i<?C. \<forall>j<?C.
                  h' ! g ! i ! j =
                    2 / real (shape0 ?t) * (\<Sum>k<length (X ! g ! i). X ! g ! i ! k * X ! g ! j ! k))"
    if z: "?n = 0"
  proof (intro exI conjI allI impI)
    show "preprocess s ?t = Inr X" by (rule X(1))
    show "H (fst (snd (update_batch s in12 cl))) =
          Some (step_h (real ?n / real (?n + shape0 ?t)) (sqrt (2 / real (?n + shape0 ?t))) h X)"
      unfolding u by simp
    fix g i j assume gij: "g < ?G" "i < ?C" "j < ?C"
    have "step_h (real ?n / real (?n + shape0 ?t)) (sqrt (2 / real (?n + shape0 ?t))) h X ! g ! i ! j
        = real ?n / real (?n + shape0 ?t) * h ! g ! i ! j +
          sqrt (2 / real (?n + shape0 ?t)) * sqrt (2 / real (?n + shape0 ?t)) *
          dot (X ! g ! i) (X ! g ! j)"
      by (rule step_h_entry[OF h(2,3) proc_okD(1,2)[OF X(2)] gij])
    also have "\<dots> = 2 / real (shape0 ?t) * dot (X ! g ! i) (X ! g ! j)"
      using z by simp
    also have "\<dots> = 2 / real (shape0 ?t) * (\<Sum>k<length (X ! g ! i). X ! g ! i ! k * X ! g ! j ! k)"
      using dot_sum[OF proc_okD(3)[OF X(2) gij]] by simp
    finally show "step_h (real ?n / real (?n + shape0 ?t)) (sqrt (2 / real (?n + shape0 ?t))) h X
        ! g ! i ! j =
        2 / real (shape0 ?t) * (\<Sum>k<length (X ! g ! i). X ! g ! i ! k * X ! g ! j ! k)" .
  qed
  show ?thesis using part1 part2 by blast
qed

subsection \<open>The accumulator on the example layer, and the wrapper\<close>

lemma upt2: "[0..<2] = [0, 1]" by (simp add: upt_rec)

lemma sqrt2_sq: "sqrt 2 * (sqrt 2 * x) = 2 * x"
  by (simp add: mult.assoc[symmetric])

lemma fc_state_init: "gptq_init fc_layer ''fc'' 1 False = Inr fc_state"
  by (simp add: gptq_init_def fc_layer_def fc_state_def shape1_def ceil_div_def zeros_def Let_def
      numeral_2_eq_2)

lemma shape_ok_fc: "shape_ok fc_state"
  by (simp add: shape_ok_def fc_state_def square_def)

theorem accumulator_symmetric_nonneg_witness:
  "\<exists>h. H (fst (snd (update_batch fc_state (Plain (T3 [[[1, 2]]])) no_layer))) = Some h \<and>
       length h = 1 \<and>
       list_all (\<lambda>A. square 2 A \<and> symmetric A \<and> list_all (\<lambda>x. 0 \<le> x) (diag A)) h"
proof -
  let ?s = "fst (snd (update_batch fc_state (Plain (T3 [[[1, 2]]])) no_layer))"
  have r0: "reachable fc_state" by (rule reachable.init[OF fc_state_init])
  have "reachable ?s"
    by (rule reachable.step[OF r0, of "Plain (T3 [[[1, 2]]])" no_layer
          "fst (update_batch fc_state (Plain (T3 [[[1, 2]]])) no_layer)" ?s
          "snd (snd (update_batch fc_state (Plain (T3 [[[1, 2]]])) no_layer))"]) simp
  from accumulator_symmetric_nonneg[OF this]
  show ?thesis by (simp add: update_batch_def hessian_update_def fc_state_def Let_def linear_processed_def fc_layer_def)
qed

theorem accumulator_invariant_to_batching_witness:
  "fst (snd (update_batch (fst (snd (update_batch fc_state (Plain (T3 [[[1, 2]]])) no_layer)))
                (QuantTensor (T3 [[[3, 4]]])) no_layer)) =
   fst (snd (update_batch fc_state (Plain (T3 [[[1, 2]], [[3, 4]]])) no_layer)) \<and>
   (\<exists>X h'. preprocess fc_state (T3 [[[1, 2]], [[3, 4]]]) = Inr X \<and>
      H (fst (snd (update_batch fc_state (Plain (T3 [[[1, 2]], [[3, 4]]])) no_layer))) = Some h' \<and>
      h' ! 0 ! 0 ! 1 = 2 / 2 * (X ! 0 ! 0 ! 0 * X ! 0 ! 1 ! 0 + X ! 0 ! 0 ! 1 * X ! 0 ! 1 ! 1))"
proof -
  have b: "batch_ok fc_state (T3 [[[1, 2]]])" "batch_ok fc_state (T3 [[[3, 4]]])"
    by (simp_all add: fc_state_def fc_layer_def)
  from accumulator_invariant_to_batching[of fc_state "Plain (T3 [[[1, 2]]])"
      "QuantTensor (T3 [[[3, 4]]])" "Plain (T3 [[[1, 2]], [[3, 4]]])" no_layer no_layer no_layer]
    shape_ok_fc b
  have "fst (snd (update_batch (fst (snd (update_batch fc_state (Plain (T3 [[[1, 2]]])) no_layer)))
                (QuantTensor (T3 [[[3, 4]]])) no_layer)) =
   fst (snd (update_batch fc_state (Plain (T3 [[[1, 2]], [[3, 4]]])) no_layer)) \<and>
     (nsamples fc_state = 0 \<longrightarrow>
            (\<exists>X h'. preprocess fc_state (T3 [[[1, 2]], [[3, 4]]]) = Inr X \<and>
               H (fst (snd (update_batch fc_state (Plain (T3 [[[1, 2]], [[3, 4]]])) no_layer))) = Some h' \<and>
               (\<forall>g<groups fc_state. \<forall>i<columns fc_state. \<forall>j<columns fc_state.
                  h' ! g ! i ! j =
                    2 / real (shape0 (T3 [[[1, 2]], [[3, 4]]])) *
                    (\<Sum>k<length (X ! g ! i). X ! g ! i ! k * X ! g ! j ! k))))"
    by simp
  moreover have "nsamples fc_state = 0" "groups fc_state = 1" "columns fc_state = 2"
    by (simp_all add: fc_state_def)
  ultimately obtain X h' where
    e: "fst (snd (update_batch (fst (snd (update_batch fc_state (Plain (T3 [[[1, 2]]])) no_layer)))
                (QuantTensor (T3 [[[3, 4]]])) no_layer)) =
   fst (snd (update_batch fc_state (Plain (T3 [[[1, 2]], [[3, 4]]])) no_layer))"
    and X: "preprocess fc_state (T3 [[[1, 2]], [[3, 4]]]) = Inr X"
    and h: "H (fst (snd (update_batch fc_state (Plain (T3 [[[1, 2]], [[3, 4]]])) no_layer))) = Some h'"
    and f: "\<forall>g<1. \<forall>i<2. \<forall>j<2. h' ! g ! i ! j = 2 / real (shape0 (T3 [[[1, 2]], [[3, 4]]])) *
                    (\<Sum>k<length (X ! g ! i). X ! g ! i ! k * X ! g ! j ! k)"
    by auto
  have len: "length (X ! 0 ! 0) = 2" using X by (auto simp add: fc_state_def fc_layer_def linear_processed_def upt2)
  have "h' ! 0 ! 0 ! 1 = 2 / 2 * (X ! 0 ! 0 ! 0 * X ! 0 ! 1 ! 0 + X ! 0 ! 0 ! 1 * X ! 0 ! 1 ! 1)"
    using f[rule_format, of 0 0 1] len by (simp add: lessThan_Suc numeral_2_eq_2)
  then show ?thesis using e X h by blast
qed

text \<open>
  The claim as stated fails on rank-2 inputs of a \<^verbatim>\<open>QuantLinear\<close>, which line 180
  takes as one unbatched sample whatever the number of their rows: two rows in
  one call give twice the accumulator that the same rows give in two calls.
\<close>

theorem rank2_batching_counterexample:
  "H (fst (snd (update_batch fc_state (Plain (T2 [[1, 2], [3, 4]])) no_layer))) =
     Some [[[20, 28], [28, 40]]] \<and>
   H (fst (snd (update_batch
                  (fst (snd (update_batch fc_state (Plain (T2 [[1, 2]])) no_layer)))
                  (Plain (T2 [[3, 4]])) no_layer))) =
     Some [[[10, 14], [14, 20]]]"
  by (simp add: update_batch_def hessian_update_def fc_state_def fc_layer_def linear_processed_def
      mscale_def madd_def gram_def dot_def upt2 Let_def sqrt2_sq algebra_simps)

text \<open>
  Claim C10. Whenever the wrapped entry point returns, it returns \<^verbatim>\<open>None\<close>; in
  particular the output of a forward pass that completes without raising is
  discarded.
\<close>

theorem catch_stopfwd_returns_None:
  "(\<forall>r st'. catch_stopfwd orig args st = (Inr r, st') \<longrightarrow> r = None) \<and>
   (\<forall>out st'. orig args st = (Inr out, st') \<longrightarrow> catch_stopfwd orig args st = (Inr None, st'))"
  by (auto simp add: catch_stopfwd_def split: prod.splits sum.splits exn.splits)

theorem catch_stopfwd_returns_None_witness:
  "catch_stopfwd (\<lambda>x st. (Inr (Some (x + 1)), Suc st)) (5::nat) (0::nat) = (Inr None, Suc 0)"
  using catch_stopfwd_returns_None[of "\<lambda>x st. (Inr (Some (x + 1)), Suc st)" "5::nat" "0::nat"]
  by simp

subsection \<open>The abort protocol and the session scope\<close>

lemma update_batch_raises:
  assumes "H s = Some h" "batch_ok s (unsqueeze_unbatched (inp_value inp))"
    and "0 < nsamples s + shape0 (unsqueeze_unbatched (inp_value inp))"
  shows "\<exists>X. preprocess s (unsqueeze_unbatched (inp_value inp)) = Inr X \<and>
          update_batch s inp cl =
           (StopFwdException,
            s\<lparr>H := Some (step_h (real (nsamples s) /
                                 real (nsamples s + shape0 (unsqueeze_unbatched (inp_value inp))))
                              (sqrt (2 / real (nsamples s + shape0 (unsqueeze_unbatched (inp_value inp)))))
                              h X),
              nsamples := nsamples s + shape0 (unsqueeze_unbatched (inp_value inp))\<rparr>,
            cl\<lparr>layer_name := Some (name s)\<rparr>)"
proof -
  let ?t = "unsqueeze_unbatched (inp_value inp)"
  obtain X where X: "preprocess s ?t = Inr X"
    using assms(2) by (cases ?t) auto
  have n: "nsamples s + shape0 ?t \<noteq> 0" using assms(3) by simp
  show ?thesis
    using X hessian_update_Some[OF assms(1) n, of X]
    by (simp add: update_batch_def Let_def step_h_def del: of_nat_add map_map)
qed

text \<open>
  Claim C8, amended. An invocation of \<^verbatim>\<open>update_batch\<close> on a present accumulator,
  with an input of the rank the layer takes and with \<open>nsamples + batch_size > 0\<close>,
  raises \<^verbatim>\<open>StopFwdException\<close> after it has written the accumulator and the sample
  count. \<^verbatim>\<open>catch_stopfwd\<close> returns normally exactly when the wrapped forward raises
  \<^verbatim>\<open>StopFwdException\<close> or returns; any other exception leaves the wrapper as the
  forward raised it, with the state the forward left; \<^verbatim>\<open>StopFwdException\<close> never
  leaves the wrapper.
\<close>

theorem update_batch_raises_and_wrapper_catches:
  "(\<forall>h. H s = Some h \<longrightarrow> batch_ok s (unsqueeze_unbatched (inp_value inp)) \<longrightarrow>
        0 < nsamples s + shape0 (unsqueeze_unbatched (inp_value inp)) \<longrightarrow>
        (\<exists>X. preprocess s (unsqueeze_unbatched (inp_value inp)) = Inr X \<and>
          update_batch s inp cl =
           (StopFwdException,
            s\<lparr>H := Some (step_h (real (nsamples s) /
                                 real (nsamples s + shape0 (unsqueeze_unbatched (inp_value inp))))
                              (sqrt (2 / real (nsamples s + shape0 (unsqueeze_unbatched (inp_value inp)))))
                              h X),
              nsamples := nsamples s + shape0 (unsqueeze_unbatched (inp_value inp))\<rparr>,
            cl\<lparr>layer_name := Some (name s)\<rparr>))) \<and>
   ((\<exists>r. fst (catch_stopfwd orig args st) = Inr r) \<longleftrightarrow>
      (fst (orig args st) = Inl StopFwdException \<or> (\<exists>out. fst (orig args st) = Inr out))) \<and>
   (\<forall>e. fst (orig args st) = Inl e \<longrightarrow> e \<noteq> StopFwdException \<longrightarrow>
        catch_stopfwd orig args st = orig args st) \<and>
   fst (catch_stopfwd orig args st) \<noteq> Inl StopFwdException \<and>
   snd (catch_stopfwd orig args st) = snd (orig args st)"
proof -
  have c: "((\<exists>r. fst (catch_stopfwd orig args st) = Inr r) \<longleftrightarrow>
      (fst (orig args st) = Inl StopFwdException \<or> (\<exists>out. fst (orig args st) = Inr out))) \<and>
   (\<forall>e. fst (orig args st) = Inl e \<longrightarrow> e \<noteq> StopFwdException \<longrightarrow>
        catch_stopfwd orig args st = orig args st) \<and>
   fst (catch_stopfwd orig args st) \<noteq> Inl StopFwdException \<and>
   snd (catch_stopfwd orig args st) = snd (orig args st)"
    by (cases "orig args st") (auto simp add: catch_stopfwd_def split: sum.splits exn.splits)
  show ?thesis using update_batch_raises[of s _ inp cl] c by blast
qed

theorem update_batch_raises_and_wrapper_catches_witness:
  "(\<exists>h'. update_batch fc_state (Plain (T2 [[1, 2]])) no_layer =
      (StopFwdException, fc_state\<lparr>H := Some h', nsamples := 1\<rparr>, \<lparr>layer_name = Some ''fc''\<rparr>)) \<and>
   (\<exists>r. fst (catch_stopfwd hooked_forward (Plain (T2 [[1, 2]])) fc_state) = Inr r)"
proof -
  have a: "H fc_state = Some [[[0, 0], [0, 0]]]"
    "batch_ok fc_state (unsqueeze_unbatched (inp_value (Plain (T2 [[1, 2]]))))"
    "0 < nsamples fc_state + shape0 (unsqueeze_unbatched (inp_value (Plain (T2 [[1, 2]]))))"
    by (simp_all add: fc_state_def fc_layer_def)
  note t = update_batch_raises_and_wrapper_catches[of fc_state "Plain (T2 [[1, 2]])" no_layer
      hooked_forward "Plain (T2 [[1, 2]])" fc_state]
  note p1 = conjunct1[OF t, rule_format, OF a]
  from p1 obtain X where
    u: "update_batch fc_state (Plain (T2 [[1, 2]])) no_layer =
           (StopFwdException,
            fc_state\<lparr>H := Some (step_h (real (nsamples fc_state) /
                                 real (nsamples fc_state + shape0 (unsqueeze_unbatched (inp_value (Plain (T2 [[1, 2]]))))))
                              (sqrt (2 / real (nsamples fc_state + shape0 (unsqueeze_unbatched (inp_value (Plain (T2 [[1, 2]])))))))
                              [[[0, 0], [0, 0]]] X),
              nsamples := nsamples fc_state + shape0 (unsqueeze_unbatched (inp_value (Plain (T2 [[1, 2]]))))\<rparr>,
            no_layer\<lparr>layer_name := Some (name fc_state)\<rparr>)"
    by (elim exE conjE)
  have n: "nsamples fc_state + shape0 (unsqueeze_unbatched (inp_value (Plain (T2 [[1, 2]])))) = 1"
    "no_layer\<lparr>layer_name := Some (name fc_state)\<rparr> = \<lparr>layer_name = Some ''fc''\<rparr>"
    by (simp_all add: fc_state_def no_layer_def)
  have 1: "\<exists>h'. update_batch fc_state (Plain (T2 [[1, 2]])) no_layer =
      (StopFwdException, fc_state\<lparr>H := Some h', nsamples := 1\<rparr>, \<lparr>layer_name = Some ''fc''\<rparr>)"
    using u unfolding n by blast
  then have "fst (hooked_forward (Plain (T2 [[1, 2]])) fc_state) = Inl StopFwdException"
    by (auto simp add: hooked_forward_def)
  with t have 2: "\<exists>r. fst (catch_stopfwd hooked_forward (Plain (T2 [[1, 2]])) fc_state) = Inr r"
    by blast
  show ?thesis using 1 2 by blast
qed

text \<open>
  The claim as stated fails on a first batch of size 0: the scaling factor is
  \<open>0 / (0 + 0)\<close> on Python integers, so the call raises \<^verbatim>\<open>ZeroDivisionError\<close> and
  writes neither the accumulator nor the sample count.
\<close>

theorem empty_first_batch_counterexample:
  "update_batch fc_state (Plain (T3 [])) no_layer =
     (ZeroDivisionError, fc_state, \<lparr>layer_name = Some ''fc''\<rparr>) \<and>
   fst (update_batch fc_state (Plain (T3 [])) no_layer) \<noteq> StopFwdException"
  by (simp add: update_batch_def hessian_update_def fc_state_def fc_layer_def no_layer_def
      linear_processed_def Let_def)

lemma attach_hooks_keeps:
  "attach_hooks ms done g ws = Inr (ms', g', ws') \<Longrightarrow>
   orig_forward g' = orig_forward g \<and> use_quant_activations g' = use_quant_activations g \<and>
   model g' = model g"
proof (induction ms arbitrary: "done" g ws)
  case Nil
  then show ?case by simp
next
  case (Cons a ms)
  obtain nm m where a: "a = (nm, m)" by (cases a)
  show ?case
  proof (cases "is_module_supported m")
    case False
    with Cons.prems a have "attach_hooks ms (done @ [(nm, m)]) g
        (if length (forward_hooks m) > 0 \<or> forward_pre_hooks m \<noteq> 0 then ws @ [hooks_warning] else ws)
        = Inr (ms', g', ws')"
      by (simp add: Let_def)
    from Cons.IH[OF this] show ?thesis .
  next
    case True
    with Cons.prems a obtain gp where
      "attach_hooks ms (done @ [(nm, m\<lparr>forward_hooks := forward_hooks m @ [Update_batch nm]\<rparr>)])
         (g\<lparr>hook_dict := AList.update nm (Update_batch nm) (hook_dict g),
            gptq_layers := AList.update nm gp (gptq_layers g)\<rparr>)
         (if length (forward_hooks m) > 0 \<or> forward_pre_hooks m \<noteq> 0 then ws @ [hooks_warning] else ws)
       = Inr (ms', g', ws')"
      by (auto simp add: Let_def split: sum.splits)
    from Cons.IH[OF this] show ?thesis by simp
  qed
qed

lemma enter_keeps:
  "enter g = Inr (g', ws) \<Longrightarrow>
   orig_forward g' = orig_forward g \<and> use_quant_activations g' = use_quant_activations g"
  by (auto simp add: enter_def Let_def split: sum.splits prod.splits dest: attach_hooks_keeps)

lemma update_keeps:
  "update la g = (r, g', ws) \<Longrightarrow>
   orig_forward g' = orig_forward g \<and> use_quant_activations g' = use_quant_activations g"
  by (auto simp add: update_def Let_def split: option.splits sum.splits prod.splits)

lemma session_of_orig_forward: "session_of m g \<Longrightarrow> orig_forward g = forward m"
  by (induction rule: session_of.induct)
     (auto simp add: gptq_mode_init_def dest: enter_keeps update_keeps)

text \<open>
  Claim C9, amended. \<^verbatim>\<open>__exit__\<close>, however the scope is left, sets the model's
  forward to the entry point saved at construction (for every session reached from
  the constructor by \<^verbatim>\<open>__enter__\<close>, hooks and \<^verbatim>\<open>update\<close>, the forward the model had
  before), enables activation and bias quantization when
  \<^verbatim>\<open>use_quant_activations\<close> is false and leaves both as they are when it is true, and
  leaves the modules and their forward hooks as they are.
\<close>

theorem exit_restores_entry_point:
  "(session_of m g \<longrightarrow> forward (model (exit_mode g exc)) = forward m) \<and>
   forward (model (exit_mode g exc)) = orig_forward g \<and>
   exit_mode g exc = exit_mode g None \<and>
   (\<not> use_quant_activations g \<longrightarrow>
      act_quantization (model (exit_mode g exc)) \<and> bias_quantization (model (exit_mode g exc))) \<and>
   (use_quant_activations g \<longrightarrow>
      act_quantization (model (exit_mode g exc)) = act_quantization (model g) \<and>
      bias_quantization (model (exit_mode g exc)) = bias_quantization (model g)) \<and>
   named_modules (model (exit_mode g exc)) = named_modules (model g)"
  using session_of_orig_forward[of m g] by (simp add: exit_mode_def Let_def)

lemma fc_enter: "enter (gptq_mode_init fc_model True True 4 False) = Inr (fc_entered, [])"
  by (simp add: enter_def gptq_mode_init_def fc_model_def fc_entered_def is_module_supported_def
      fc_layer_def gptq_init_def fc_state_def Let_def shape1_def ceil_div_def zeros_def numeral_2_eq_2)

theorem exit_restores_entry_point_witness:
  "forward (model (exit_mode fc_entered (Some StopFwdException))) = forward fc_model \<and>
   exit_mode fc_entered (Some StopFwdException) = exit_mode fc_entered None \<and>
   act_quantization (model (exit_mode fc_entered (Some StopFwdException))) \<and>
   named_modules (model (exit_mode fc_entered (Some StopFwdException))) =
     named_modules (model fc_entered)"
proof -
  have "session_of fc_model fc_entered"
    by (rule session_of.entered[OF session_of.created fc_enter])
  moreover have "use_quant_activations fc_entered" "act_quantization (model fc_entered)"
    by (simp_all add: fc_entered_def)
  ultimately show ?thesis
    using exit_restores_entry_point[of fc_model fc_entered "Some StopFwdException"]
    by blast
qed

text \<open>
  The claim as stated fails on a session left before \<^verbatim>\<open>update\<close> has run: the hook
  that \<^verbatim>\<open>__enter__\<close> registered on the layer is still registered after \<^verbatim>\<open>__exit__\<close>.
\<close>

theorem hooks_survive_exit_counterexample:
  "enter (gptq_mode_init fc_model True True 4 False) = Inr (fc_entered, []) \<and>
   map (\<lambda>(n, m). forward_hooks m) (named_modules fc_model) = [[]] \<and>
   map (\<lambda>(n, m). forward_hooks m) (named_modules (model (exit_mode fc_entered None))) =
     [[Update_batch ''fc'']]"
  using fc_enter by (simp add: exit_mode_def fc_entered_def fc_model_def Let_def)

subsection \<open>Dead channels, ordering and failed inversion\<close>

lemma order_group_dead: "fst (order_group ao c A) = dead_mask A"
  by (simp add: order_group_def Let_def)

lemma order_groups_result:
  assumes "distinct is" "order_groups ao c is (h, w, pl) = (h', w', pl')"
  shows "pl' = pl @ map (\<lambda>i. snd (snd (order_group ao c (h ! i)))) is \<and>
         length h' = length h \<and> length w' = length w \<and>
         (\<forall>i<length h. h' ! i = (if i \<in> set is then fst (snd (order_group ao c (h ! i))) else h ! i)) \<and>
         (\<forall>i<length w. w' ! i = (if i \<in> set is then zero_dead (dead_mask (h ! i)) (w ! i) else w ! i))"
  using assms
proof (induction "is" arbitrary: h w pl)
  case Nil
  then show ?case by simp
next
  case (Cons i "is")
  obtain dead A perm where og: "order_group ao c (h ! i) = (dead, A, perm)"
    by (cases "order_group ao c (h ! i)") auto
  have dead: "dead = dead_mask (h ! i)" using order_group_dead[of ao c "h ! i"] og by simp
  from Cons.prems og have rec:
    "order_groups ao c is (h[i := A], w[i := zero_dead dead (w ! i)], pl @ [perm]) = (h', w', pl')"
    by simp
  have d: "distinct is" "i \<notin> set is" using Cons.prems(1) by simp_all
  note IH = Cons.IH[OF d(1) rec]
  have other: "\<And>j. j \<in> set is \<Longrightarrow> h[i := A] ! j = h ! j"
    using d(2) by (metis nth_list_update_neq)
  have pl: "pl' = pl @ map (\<lambda>i. snd (snd (order_group ao c (h ! i)))) (i # is)"
    using IH og other by (simp cong: map_cong)
  have hh: "\<forall>j<length h. h' ! j = (if j \<in> set (i # is) then fst (snd (order_group ao c (h ! j))) else h ! j)"
  proof (intro allI impI)
    fix j assume j: "j < length h"
    show "h' ! j = (if j \<in> set (i # is) then fst (snd (order_group ao c (h ! j))) else h ! j)"
    proof (cases "j = i")
      case True
      then show ?thesis using IH j d(2) og by simp
    next
      case False
      then show ?thesis using IH j by simp
    qed
  qed
  have ww: "\<forall>j<length w. w' ! j = (if j \<in> set (i # is) then zero_dead (dead_mask (h ! j)) (w ! j) else w ! j)"
  proof (intro allI impI)
    fix j assume j: "j < length w"
    show "w' ! j = (if j \<in> set (i # is) then zero_dead (dead_mask (h ! j)) (w ! j) else w ! j)"
    proof (cases "j = i")
      case True
      then show ?thesis using IH j d(2) dead by simp
    next
      case False
      then show ?thesis using IH j other by (cases "j \<in> set is") simp_all
    qed
  qed
  show ?case using pl hh ww IH by simp
qed

lemma length_dead_mask: "length (dead_mask A) = length A"
  by (simp add: dead_mask_def diag_def)

lemma dead_mask_nth: "c < length A \<Longrightarrow> dead_mask A ! c \<longleftrightarrow> A ! c ! c = 0"
  by (simp add: dead_mask_def diag_def)

lemma zero_dead_nth:
  "length dead = length row \<Longrightarrow> c < length row \<Longrightarrow>
   zero_dead dead row ! c = (if dead ! c then 0 else row ! c)"
  by (simp add: zero_dead_def)

lemma length_zero_dead: "length dead = length row \<Longrightarrow> length (zero_dead dead row) = length row"
  by (simp add: zero_dead_def)

lemma layer_okD:
  assumes "layer_ok s" "H s = Some h"
  shows "length h = groups s" "\<And>g. g < groups s \<Longrightarrow> square (columns s) (h ! g)"
    "0 < groups s" "length (weight (layer s)) = rows s"
    "\<And>r. r < rows s \<Longrightarrow> length (weight (layer s) ! r) = columns s"
    "groups s > 1 \<Longrightarrow> rows s = groups s"
  using assms by (auto simp add: layer_ok_def shape_ok_def list_all_length)

lemma dead_and_order_weights:
  assumes ok: "layer_ok s" and h: "H s = Some h"
    and d: "dead_and_order s h (weight (layer s)) = (h1, w1, pl)"
  shows "length w1 = rows s \<and>
         (\<forall>r<rows s. length (w1 ! r) = columns s \<and>
            (\<forall>c<columns s. w1 ! r ! c =
               (if h ! (group_of s r) ! c ! c = 0 then 0 else weight (layer s) ! r ! c)))"
proof (cases "groups s > 1")
  case True
  note D = layer_okD[OF ok h]
  from d True have og: "order_groups (act_order s) (columns s) [0..<groups s]
      (h, weight (layer s), []) = (h1, w1, pl)"
    by (simp add: dead_and_order_def)
  note R = order_groups_result[OF distinct_upt og]
  have len: "length w1 = rows s" using R D by simp
  have "length (w1 ! r) = columns s \<and>
            (\<forall>c<columns s. w1 ! r ! c =
               (if h ! (group_of s r) ! c ! c = 0 then 0 else weight (layer s) ! r ! c))"
    if r: "r < rows s" for r
  proof -
    have rg: "r < groups s" using r D(6)[OF True] by simp
    have w1r: "w1 ! r = zero_dead (dead_mask (h ! r)) (weight (layer s) ! r)"
      using R r rg D by simp
    have lh: "length (h ! r) = columns s" using D(2)[OF rg] by (simp add: square_def)
    have lw: "length (weight (layer s) ! r) = columns s" using D(5)[OF r] .
    show ?thesis
      using True lh lw by (simp add: w1r zero_dead_nth length_zero_dead length_dead_mask
          dead_mask_nth group_of_def)
  qed
  then show ?thesis using len by simp
next
  case False
  note D = layer_okD[OF ok h]
  have w1: "w1 = map (zero_dead (dead_mask (h ! 0))) (weight (layer s))"
    using d False by (auto simp add: dead_and_order_def Let_def split: if_splits)
  have lh: "length (h ! 0) = columns s" using D(2)[of 0] D(3) by (simp add: square_def)
  have "length (w1 ! r) = columns s \<and>
            (\<forall>c<columns s. w1 ! r ! c =
               (if h ! (group_of s r) ! c ! c = 0 then 0 else weight (layer s) ! r ! c))"
    if r: "r < rows s" for r
  proof -
    have lw: "length (weight (layer s) ! r) = columns s" using D(5)[OF r] .
    show ?thesis
      using False lh lw r D(4) by (simp add: w1 zero_dead_nth length_zero_dead length_dead_mask
          dead_mask_nth group_of_def)
  qed
  then show ?thesis using D(4) by (simp add: w1)
qed

lemma argsort_desc_perm:
  "length (argsort_desc d) = length d" "distinct (argsort_desc d)"
  "set (argsort_desc d) = {0..<length d}"
  by (simp_all add: argsort_desc_def)

lemma argsort_desc_sorted:
  assumes "a \<le> b" "b < length d"
  shows "d ! (argsort_desc d ! b) \<le> d ! (argsort_desc d ! a)"
proof -
  have "sorted (map (\<lambda>i. - (d ! i)) (argsort_desc d))"
    unfolding argsort_desc_def by (rule sorted_sort_key)
  then have "map (\<lambda>i. - (d ! i)) (argsort_desc d) ! a \<le> map (\<lambda>i. - (d ! i)) (argsort_desc d) ! b"
    using assms by (simp add: sorted_iff_nth_mono argsort_desc_perm(1))
  then show ?thesis using assms by (simp add: argsort_desc_perm(1))
qed

lemma length_set_dead_diag: "length (set_dead_diag dead A) = length A"
  by (simp add: set_dead_diag_def)

lemma length_diag: "length (diag A) = length A"
  by (simp add: diag_def)

lemma order_group_perm: "snd (snd (order_group ao c A)) = perm_of ao c A"
  by (simp add: order_group_def perm_of_def Let_def)

lemma order_group_hessian:
  "fst (snd (order_group ao c A)) =
     (if ao then permute_sym (perm_of ao c A) (set_dead_diag (dead_mask A) A)
      else set_dead_diag (dead_mask A) A)"
  by (simp add: order_group_def perm_of_def Let_def)

lemma dead_and_order_perms:
  assumes ok: "layer_ok s" and h: "H s = Some h"
    and d: "dead_and_order s h w = (h1, w1, pl)"
  shows "length pl = groups s \<and> length h1 = groups s \<and>
         (\<forall>g<groups s. pl ! g = perm_of (act_order s) (columns s) (h ! g) \<and>
            h1 ! g = (if act_order s
                      then permute_sym (pl ! g) (set_dead_diag (dead_mask (h ! g)) (h ! g))
                      else set_dead_diag (dead_mask (h ! g)) (h ! g)))"
proof (cases "groups s > 1")
  case True
  note D = layer_okD[OF ok h]
  from d True have og: "order_groups (act_order s) (columns s) [0..<groups s] (h, w, []) = (h1, w1, pl)"
    by (simp add: dead_and_order_def)
  note R = order_groups_result[OF distinct_upt og]
  have pl: "pl = map (\<lambda>i. perm_of (act_order s) (columns s) (h ! i)) [0..<groups s]"
    using R by (simp add: order_group_perm)
  show ?thesis using R D(1) by (simp add: pl order_group_hessian)
next
  case False
  note D = layer_okD[OF ok h]
  have g1: "groups s = 1" using False D(3) by simp
  have lh: "length h = 1" using D(1) g1 by simp
  show ?thesis
    using d False g1 lh
    by (auto simp add: dead_and_order_def Let_def perm_of_def split: if_splits)
qed

lemma perm_of_valid:
  assumes "length A = c"
  shows "length (perm_of ao c A) = c" "distinct (perm_of ao c A)" "set (perm_of ao c A) = {0..<c}"
  using assms by (simp_all add: perm_of_def argsort_desc_perm length_diag length_set_dead_diag)

lemma upt3: "[0..<3] = [0, 1, 2]" by (simp add: upt_rec)

lemmas eval_defs = single_layer_update_def dead_and_order_def order_group_def dead_mask_def diag_def
  set_dead_diag_def zero_dead_def argsort_desc_def permute_sym_def
  invert_group_def mean_def add_diag_def exact_linalg_def chol_lower_def dot_def
  chol_inverse_def gram_def unit_vec_def transpose_sq_def block_starts_def ceil_div_def
  process_block_def block_init_def column_step_def get_quant_weights_def residual_def sub_from_def
  perm_in_scope_def propagate_def propagate_row_def vecmat_def shape1_def gather_def scatter_def slice_def
  Let_def

lemma group_of_less: "layer_ok s \<Longrightarrow> H s = Some h \<Longrightarrow> r < rows s \<Longrightarrow> group_of s r < groups s"
  using layer_okD(3,6)[of s h] by (auto simp add: group_of_def)

lemma single_layer_update_failed:
  assumes "H s = Some h" "dead_and_order s h (weight (layer s)) = (h1, w1, pl)"
    and "invert_groups la percdamp [0..<groups s] h1 = None"
  shows "single_layer_update la percdamp s =
         (Inr (), s\<lparr>layer := (layer s)\<lparr>weight := w1\<rparr>, H := None\<rparr>, [warning_text (name s)])"
  using assms by (simp add: single_layer_update_def)

lemma update_returned:
  assumes "layer_name (current_layer g) = Some nm"
    and "map_of (gptq_layers g) nm = Some s"
    and "map_of (hook_dict g) nm = Some hk"
    and "single_layer_update la (1 / 100) s = (Inr (), s', ws)"
  shows "update la g =
           (Inr (),
            g\<lparr>gptq_layers := AList.update nm s' (gptq_layers g),
              model := (model g)\<lparr>named_modules :=
                 map (\<lambda>(n, m). if n = nm then (n, remove_hook hk (m\<lparr>mod_layer := Some (layer s')\<rparr>))
                                else (n, m)) (named_modules (model g))\<rparr>\<rparr>,
            ws)"
  using assms by (simp add: update_def Let_def case_prod_unfold comp_def cong: if_cong)

text \<open>
  Claim C2, amended. When the inversion fails for some group, the call returns
  without raising, emits the one warning that names the layer, deletes the
  accumulator, and leaves every weight as it was except the entries of the dead
  columns (zero accumulator diagonal, per group for a grouped layer), which are
  zero: they were written in place before the \<^verbatim>\<open>try\<close>. The session proceeds:
  \<^verbatim>\<open>gptq_mode.update\<close>, which runs the call with the default damping \<open>1 / 100\<close>,
  returns normally with that one warning and removes the hook of the layer
  (line 113), so that the next forward pass runs on to the layers that still
  have theirs; nothing else of the session changes.
\<close>

theorem failed_inversion_zeroes_only_dead_columns:
  assumes "layer_ok s" "H s = Some h"
    and "dead_and_order s h (weight (layer s)) = (h1, w1, pl)"
    and "invert_groups la percdamp [0..<groups s] h1 = None"
  shows "\<exists>w'. single_layer_update la percdamp s =
           (Inr (), s\<lparr>layer := (layer s)\<lparr>weight := w'\<rparr>, H := None\<rparr>, [warning_text (name s)]) \<and>
         length w' = rows s \<and>
         (\<forall>r<rows s. length (w' ! r) = columns s \<and>
            (\<forall>c<columns s. w' ! r ! c =
               (if h ! (group_of s r) ! c ! c = 0 then 0 else weight (layer s) ! r ! c))) \<and>
         (percdamp = 1 / 100 \<longrightarrow>
            (\<forall>g nm hk.
               layer_name (current_layer g) = Some nm \<and>
               map_of (gptq_layers g) nm = Some s \<and>
               map_of (hook_dict g) nm = Some hk \<longrightarrow>
               update la g =
                 (Inr (),
                  g\<lparr>gptq_layers :=
                      AList.update nm (s\<lparr>layer := (layer s)\<lparr>weight := w'\<rparr>, H := None\<rparr>)
                        (gptq_layers g),
                    model := (model g)\<lparr>named_modules :=
                      map (\<lambda>(n, m). if n = nm
                             then (n, remove_hook hk
                                        (m\<lparr>mod_layer := Some ((layer s)\<lparr>weight := w'\<rparr>)\<rparr>))
                             else (n, m))
                        (named_modules (model g))\<rparr>\<rparr>,
                  [warning_text (name s)])))"
proof -
  note u = single_layer_update_failed[OF assms(2,3,4)]
  note d = dead_and_order_weights[OF assms(1,2,3)]
  have "update la g =
                 (Inr (),
                  g\<lparr>gptq_layers :=
                      AList.update nm (s\<lparr>layer := (layer s)\<lparr>weight := w1\<rparr>, H := None\<rparr>)
                        (gptq_layers g),
                    model := (model g)\<lparr>named_modules :=
                      map (\<lambda>(n, m). if n = nm
                             then (n, remove_hook hk
                                        (m\<lparr>mod_layer := Some ((layer s)\<lparr>weight := w1\<rparr>)\<rparr>))
                             else (n, m))
                        (named_modules (model g))\<rparr>\<rparr>,
                  [warning_text (name s)])"
    if "percdamp = 1 / 100" "layer_name (current_layer g) = Some nm"
      "map_of (gptq_layers g) nm = Some s" "map_of (hook_dict g) nm = Some hk"
    for g :: "'f gptq_mode" and nm hk
  proof -
    have l: "layer (s\<lparr>layer := (layer s)\<lparr>weight := w1\<rparr>, H := None\<rparr>) = (layer s)\<lparr>weight := w1\<rparr>"
      by simp
    show ?thesis
      using update_returned[OF that(2,3,4) u[unfolded that(1)]] unfolding l .
  qed
  then show ?thesis using u d by blast
qed

lemma sqrt_121_100: "sqrt (121 / 100) = 11 / 10"
  using real_sqrt_abs[of "11 / 10"] by (simp add: power2_eq_square)

lemma fail_state_dead:
  "dead_and_order fail_state [[[0, 0, 0], [0, 1, 11], [0, 11, 61]]] [[5, 1, 2]] =
     ([[[1, 0, 0], [0, 1, 11], [0, 11, 61]]], [[0, 1, 2]], [[0, 1, 2]])"
  by (simp add: fail_state_def fc_state_def fc_layer_def dead_and_order_def dead_mask_def diag_def
      set_dead_diag_def zero_dead_def upt3 Let_def)

lemma fail_state_invert:
  "invert_groups exact_linalg (1 / 100) [0..<groups fail_state] [[[1, 0, 0], [0, 1, 11], [0, 11, 61]]] = None"
  by (simp add: fail_state_def fc_state_def invert_group_def mean_def diag_def add_diag_def
      exact_linalg_def chol_lower_def dot_def upt3 Let_def sqrt_121_100)

lemma layer_ok_fail: "layer_ok fail_state"
  by (simp add: layer_ok_def shape_ok_def fail_state_def fc_state_def fc_layer_def square_def)

theorem failed_inversion_zeroes_only_dead_columns_witness:
  "single_layer_update exact_linalg (1 / 100) fail_state =
     (Inr (), fail_state\<lparr>layer := (layer fail_state)\<lparr>weight := [[0, 1, 2]]\<rparr>, H := None\<rparr>,
      [warning_text ''fc'']) \<and>
   update exact_linalg fail_session =
     (Inr (),
      fail_session\<lparr>
        gptq_layers :=
          [(''fc'', fail_state\<lparr>layer := (layer fail_state)\<lparr>weight := [[0, 1, 2]]\<rparr>, H := None\<rparr>),
           (''fc2'', fc_state\<lparr>name := ''fc2''\<rparr>)],
        model := (model fail_session)\<lparr>named_modules :=
          [(''fc'', \<lparr> mod_layer = Some ((layer fail_state)\<lparr>weight := [[0, 1, 2]]\<rparr>),
                     forward_hooks = [], forward_pre_hooks = 0 \<rparr>),
           (''fc2'', \<lparr> mod_layer = Some fc_layer,
                      forward_hooks = [Update_batch ''fc2''], forward_pre_hooks = 0 \<rparr>)]\<rparr>\<rparr>,
      [warning_text ''fc''])"
proof -
  have h: "H fail_state = Some [[[0, 0, 0], [0, 1, 11], [0, 11, 61]]]"
    and w: "weight (layer fail_state) = [[5, 1, 2]]" and n: "name fail_state = ''fc''"
    by (simp_all add: fail_state_def fc_state_def fc_layer_def)
  have c: "layer_name (current_layer fail_session) = Some ''fc'' \<and>
           map_of (gptq_layers fail_session) ''fc'' = Some fail_state \<and>
           map_of (hook_dict fail_session) ''fc'' = Some (Update_batch ''fc'')"
    by (simp add: fail_session_def)
  from failed_inversion_zeroes_only_dead_columns[OF layer_ok_fail h
      fail_state_dead[folded w] fail_state_invert]
  obtain w' where u: "single_layer_update exact_linalg (1 / 100) fail_state =
           (Inr (), fail_state\<lparr>layer := (layer fail_state)\<lparr>weight := w'\<rparr>, H := None\<rparr>,
            [warning_text (name fail_state)])"
    and v: "update exact_linalg fail_session =
                 (Inr (),
                  fail_session\<lparr>gptq_layers :=
                      AList.update ''fc'' (fail_state\<lparr>layer := (layer fail_state)\<lparr>weight := w'\<rparr>, H := None\<rparr>)
                        (gptq_layers fail_session),
                    model := (model fail_session)\<lparr>named_modules :=
                      map (\<lambda>(n, m). if n = ''fc''
                             then (n, remove_hook (Update_batch ''fc'')
                                        (m\<lparr>mod_layer := Some ((layer fail_state)\<lparr>weight := w'\<rparr>)\<rparr>))
                             else (n, m))
                        (named_modules (model fail_session))\<rparr>\<rparr>,
                  [warning_text (name fail_state)])"
    using c by blast
  have e: "single_layer_update exact_linalg (1 / 100) fail_state =
       (Inr (), fail_state\<lparr>layer := (layer fail_state)\<lparr>weight := [[0, 1, 2]]\<rparr>, H := None\<rparr>,
        [warning_text (name fail_state)])"
    by (rule single_layer_update_failed[OF h fail_state_dead[folded w] fail_state_invert])
  have "weight (layer (fst (snd (single_layer_update exact_linalg (1 / 100) fail_state)))) = w'"
    unfolding u by simp
  then have w': "w' = [[0, 1, 2]]" unfolding e by simp
  have m: "named_modules (model fail_session) =
             [(''fc'', \<lparr> mod_layer = Some (layer fail_state),
                              forward_hooks = [Update_batch ''fc''],
                              forward_pre_hooks = 0 \<rparr>),
              (''fc2'', \<lparr> mod_layer = Some fc_layer,
                               forward_hooks = [Update_batch ''fc2''],
                               forward_pre_hooks = 0 \<rparr>)]"
    and gl: "gptq_layers fail_session = [(''fc'', fail_state), (''fc2'', fc_state\<lparr>name := ''fc2''\<rparr>)]"
    by (simp_all add: fail_session_def)
  show ?thesis
    using e n v[unfolded w'] by (simp add: m gl remove_hook_def)
qed

text \<open>
  The claim as stated fails on \<open>fail_state\<close>: the inversion fails, the call returns
  with the warning, and the weight of the dead first column has changed from 5 to 0.
\<close>

theorem failed_inversion_modifies_weights_counterexample:
  "fst (single_layer_update exact_linalg (1 / 100) fail_state) = Inr () \<and>
   snd (snd (single_layer_update exact_linalg (1 / 100) fail_state)) = [warning_text ''fc''] \<and>
   weight (layer fail_state) = [[5, 1, 2]] \<and>
   weight (layer (fst (snd (single_layer_update exact_linalg (1 / 100) fail_state)))) = [[0, 1, 2]]"
proof -
  have h: "H fail_state = Some [[[0, 0, 0], [0, 1, 11], [0, 11, 61]]]"
    and w: "weight (layer fail_state) = [[5, 1, 2]]" and n: "name fail_state = ''fc''"
    by (simp_all add: fail_state_def fc_state_def fc_layer_def)
  have "single_layer_update exact_linalg (1 / 100) fail_state =
       (Inr (), fail_state\<lparr>layer := (layer fail_state)\<lparr>weight := [[0, 1, 2]]\<rparr>, H := None\<rparr>,
        [warning_text (name fail_state)])"
    by (rule single_layer_update_failed[OF h fail_state_dead[folded w] fail_state_invert])
  then show ?thesis using w n by simp
qed

lemma set_dead_diag_nth:
  assumes "square n A" "i < n"
  shows "diag (set_dead_diag (dead_mask A) A) ! i = ordering_key A i"
proof -
  have l: "length A = n" "length (A ! i) = n" using assms by (simp_all add: square_def list_all_length)
  show ?thesis
    using assms(2) l
    by (simp add: diag_def set_dead_diag_def dead_mask_def ordering_key_def)
qed

text \<open>
  Claim C6, amended. On every well-formed layer state, \<^verbatim>\<open>permutation_list\<close> holds
  one permutation per group, each a list of the \<open>columns\<close> distinct indices
  \<open>0, \<dots>, columns - 1\<close>. With \<^verbatim>\<open>act_order\<close> a group's permutation lists the indices by
  descending value of \<open>ordering_key\<close>: the diagonal of the accumulator the layer
  state holds at the start of the call, with every zero (dead) entry counted as 1,
  the value lines 240 and 257 write before lines 246 and 263 sort. Without
  \<^verbatim>\<open>act_order\<close> the permutation is the identity \<open>[0..<columns]\<close>.
\<close>

theorem permutation_valid_and_ordered:
  assumes "layer_ok s" "H s = Some h"
    and "dead_and_order s h (weight (layer s)) = (h1, w1, permutation_list)"
  shows "length permutation_list = groups s \<and>
         (\<forall>g<groups s.
            length (permutation_list ! g) = columns s \<and>
            distinct (permutation_list ! g) \<and>
            set (permutation_list ! g) = {0..<columns s} \<and>
            (act_order s \<longrightarrow>
               (\<forall>a b. a \<le> b \<longrightarrow> b < columns s \<longrightarrow>
                  ordering_key (h ! g) (permutation_list ! g ! b)
                  \<le> ordering_key (h ! g) (permutation_list ! g ! a))) \<and>
            (\<not> act_order s \<longrightarrow> permutation_list ! g = [0..<columns s]))"
proof -
  note P = dead_and_order_perms[OF assms]
  note D = layer_okD[OF assms(1,2)]
  have "length (permutation_list ! g) = columns s \<and>
            distinct (permutation_list ! g) \<and>
            set (permutation_list ! g) = {0..<columns s} \<and>
            (act_order s \<longrightarrow>
               (\<forall>a b. a \<le> b \<longrightarrow> b < columns s \<longrightarrow>
                  ordering_key (h ! g) (permutation_list ! g ! b)
                  \<le> ordering_key (h ! g) (permutation_list ! g ! a))) \<and>
            (\<not> act_order s \<longrightarrow> permutation_list ! g = [0..<columns s])"
    if g: "g < groups s" for g
  proof -
    let ?d = "diag (set_dead_diag (dead_mask (h ! g)) (h ! g))"
    have sq: "square (columns s) (h ! g)" using D(2)[OF g] .
    have lh: "length (h ! g) = columns s" using sq by (simp add: square_def)
    have pg: "permutation_list ! g = perm_of (act_order s) (columns s) (h ! g)" using P g by simp
    have ld: "length ?d = columns s"
      using lh by (simp add: length_diag length_set_dead_diag)
    note V = perm_of_valid[OF lh, of "act_order s"]
    have sorted: "ordering_key (h ! g) (permutation_list ! g ! b)
                  \<le> ordering_key (h ! g) (permutation_list ! g ! a)"
      if ao: "act_order s" and ab: "a \<le> b" "b < columns s" for a b
    proof -
      have p: "permutation_list ! g = argsort_desc ?d" using pg ao by (simp add: perm_of_def)
      have "permutation_list ! g ! a \<in> set (permutation_list ! g)"
        "permutation_list ! g ! b \<in> set (permutation_list ! g)"
        using ab V(1) pg by simp_all
      then have r: "permutation_list ! g ! a < columns s" "permutation_list ! g ! b < columns s"
        using V(3) pg by simp_all
      have "?d ! (argsort_desc ?d ! b) \<le> ?d ! (argsort_desc ?d ! a)"
        using ab ld by (intro argsort_desc_sorted) simp_all
      then show ?thesis
        using r by (simp add: p[symmetric] set_dead_diag_nth[OF sq])
    qed
    show ?thesis
      using V sorted pg by (auto simp add: perm_of_def)
  qed
  then show ?thesis using P by simp
qed

lemma layer_ok_order: "layer_ok order_state"
  by (simp add: layer_ok_def shape_ok_def order_state_def fc_state_def fc_layer_def square_def)

lemma order_state_dead:
  "dead_and_order order_state [[[1 / 2, 0], [0, 0]]] (weight (layer order_state)) =
     ([[[1, 0], [0, 1 / 2]]], [[1, 0]], [[1, 0]])"
  by (simp add: order_state_def fc_state_def fc_layer_def dead_and_order_def dead_mask_def diag_def
      set_dead_diag_def zero_dead_def argsort_desc_def permute_sym_def upt2 Let_def)

theorem permutation_valid_and_ordered_witness:
  "dead_and_order order_state [[[1 / 2, 0], [0, 0]]] (weight (layer order_state)) =
     ([[[1, 0], [0, 1 / 2]]], [[1, 0]], [[1, 0]]) \<and>
   distinct [1, 0 :: nat] \<and> set [1, 0 :: nat] = {0..<2} \<and>
   ordering_key [[1 / 2, 0], [0, 0]] 0 \<le> ordering_key [[1 / 2, 0], [0, 0]] 1"
proof -
  have h: "H order_state = Some [[[1 / 2, 0], [0, 0]]]"
    and f: "groups order_state = 1" "columns order_state = 2" "act_order order_state"
    by (simp_all add: order_state_def fc_state_def)
  note t = permutation_valid_and_ordered[OF layer_ok_order h order_state_dead]
  from t f have g0: "distinct ([[1, 0 :: nat]] ! 0)" "set ([[1, 0 :: nat]] ! 0) = {0..<2}"
    "\<forall>a b. a \<le> b \<longrightarrow> b < 2 \<longrightarrow>
       ordering_key ([[[1 / 2, 0], [0, 0]]] ! 0) ([[1, 0 :: nat]] ! 0 ! b)
       \<le> ordering_key ([[[1 / 2, 0], [0, 0]]] ! 0) ([[1, 0 :: nat]] ! 0 ! a)"
    by simp_all
  from g0(3)[rule_format, of 0 1] have
    "ordering_key [[1 / 2, 0], [0, 0]] 0 \<le> ordering_key [[1 / 2, 0], [0, 0]] 1"
    by simp
  then show ?thesis using order_state_dead g0(1,2) by simp
qed

text \<open>
  The claim as stated, descending order of the accumulator diagonal of the layer
  state, fails on \<open>order_state\<close>: its diagonal is \<open>[1 / 2, 0]\<close>, the second column is
  dead and sorts as 1, so the permutation is \<open>[1, 0]\<close> and the diagonal read along
  it, \<open>0\<close> then \<open>1 / 2\<close>, ascends.
\<close>

theorem dead_entry_sorts_as_one_counterexample:
  "act_order order_state \<and>
   H order_state = Some [[[1 / 2, 0], [0, 0]]] \<and>
   snd (snd (dead_and_order order_state [[[1 / 2, 0], [0, 0]]] (weight (layer order_state)))) =
     [[1, 0]] \<and>
   diag [[1 / 2, 0], [0, 0]] = [1 / 2, 0] \<and>
   diag [[1 / 2, 0], [0, 0]] ! ([1, 0 :: nat] ! 0) < diag [[1 / 2, 0], [0, 0]] ! ([1, 0 :: nat] ! 1)"
proof -
  have "act_order order_state" "H order_state = Some [[[1 / 2, 0], [0, 0]]]"
    by (simp_all add: order_state_def)
  moreover have "diag [[1 / 2, 0], [0, 0]] = [1 / 2, 0 :: real]"
    by (simp add: diag_def upt2)
  ultimately show ?thesis
    by (simp add: order_state_dead)
qed

subsection \<open>Zero-sample layers and dead channels\<close>

lemma weights_eqI:
  assumes "length w = n" "length w' = n"
    and "\<And>r. r < n \<Longrightarrow> length (w ! r) = c \<and> length (w' ! r) = c \<and> (\<forall>j<c. w ! r ! j = w' ! r ! j)"
  shows "w = w'"
proof (rule nth_equalityI)
  show "length w = length w'" using assms by simp
next
  fix r assume "r < length w"
  then have r: "r < n" using assms by simp
  show "w ! r = w' ! r"
    using assms(3)[OF r] by (intro nth_equalityI) simp_all
qed

lemma zeros_nth: "r < m \<Longrightarrow> j < n \<Longrightarrow> zeros m n ! r ! j = 0"
  "length (zeros m n) = m" "r < m \<Longrightarrow> length (zeros m n ! r) = n"
  by (simp_all add: zeros_def)

lemma dead_and_order_independent:
  assumes "layer_ok s" "H s = Some h" "layer_ok s'" "H s' = Some h"
    and "groups s' = groups s" "columns s' = columns s" "act_order s' = act_order s"
    and "dead_and_order s h w = (h1, w1, pl)" "dead_and_order s' h w' = (h1', w1', pl')"
  shows "h1' = h1 \<and> pl' = pl"
proof -
  note P = dead_and_order_perms[OF assms(1,2,8)]
  note P' = dead_and_order_perms[OF assms(3,4,9)]
  have "pl' = pl" using P P' assms(5,6,7) by (intro nth_equalityI) simp_all
  moreover have "h1' = h1" using P P' assms(5,6,7) \<open>pl' = pl\<close> by (intro nth_equalityI) simp_all
  ultimately show ?thesis by simp
qed

lemma get_quant_weights_weight_cong:
  "get_quant_weights (s\<lparr>layer := (layer s)\<lparr>weight := z\<rparr>\<rparr>) = get_quant_weights s"
  by (simp add: fun_eq_iff get_quant_weights_def Let_def)

lemma column_step_weight_cong:
  "column_step (s\<lparr>layer := (layer s)\<lparr>weight := z\<rparr>\<rparr>) = column_step s"
  by (simp add: fun_eq_iff column_step_def get_quant_weights_weight_cong perm_in_scope_def Let_def)

lemma process_block_weight_cong:
  "process_block (s\<lparr>layer := (layer s)\<lparr>weight := z\<rparr>\<rparr>) = process_block s"
  by (simp add: fun_eq_iff process_block_def block_init_def column_step_weight_cong propagate_def
      Let_def)

lemma single_layer_update_no_zero_division:
  "fst (single_layer_update la percdamp s) \<noteq> Inl ZeroDivisionError"
  by (simp add: single_layer_update_def Let_def split: option.splits prod.splits)

lemma permute_sym_diag:
  "p < length perm \<Longrightarrow> permute_sym perm A ! p ! p = A ! (perm ! p) ! (perm ! p)"
  by (simp add: permute_sym_def)

lemma set_dead_diag_one:
  assumes "square n A" "c < n" "A ! c ! c = 0"
  shows "set_dead_diag (dead_mask A) A ! c ! c = 1"
proof -
  have l: "length A = n" "length (A ! c) = n" using assms by (simp_all add: square_def list_all_length)
  show ?thesis using assms(2,3) l by (simp add: set_dead_diag_def dead_mask_def diag_def)
qed

lemma perm_entry_less:
  assumes ok: "layer_ok s" and h: "H s = Some h"
    and d: "dead_and_order s h w = (h1, w1, pl)"
    and g: "g < groups s" and p: "p < columns s"
  shows "pl ! g ! p < columns s"
proof -
  note P = dead_and_order_perms[OF ok h d]
  have lh: "length (h ! g) = columns s" using layer_okD(2)[OF ok h g] by (simp add: square_def)
  have pg: "pl ! g = perm_of (act_order s) (columns s) (h ! g)" using P g by simp
  note V = perm_of_valid[OF lh, of "act_order s", folded pg]
  have "pl ! g ! p \<in> set (pl ! g)" using p V(1) by simp
  then show ?thesis using V(3) by simp
qed

lemma dead_and_order_diag:
  assumes ok: "layer_ok s" and h: "H s = Some h"
    and d: "dead_and_order s h w = (h1, w1, pl)"
    and g: "g < groups s" and p: "p < columns s" and z: "h ! g ! (pl ! g ! p) ! (pl ! g ! p) = 0"
  shows "h1 ! g ! p ! p = 1"
proof -
  note P = dead_and_order_perms[OF ok h d]
  note D = layer_okD[OF ok h]
  have sq: "square (columns s) (h ! g)" using D(2)[OF g] .
  have lh: "length (h ! g) = columns s" using sq by (simp add: square_def)
  have pg: "pl ! g = perm_of (act_order s) (columns s) (h ! g)" using P g by simp
  note V = perm_of_valid[OF lh, of "act_order s", folded pg]
  have "pl ! g ! p \<in> set (pl ! g)" using p V(1) by simp
  then have c: "pl ! g ! p < columns s" using V(3) by simp
  have one: "set_dead_diag (dead_mask (h ! g)) (h ! g) ! (pl ! g ! p) ! (pl ! g ! p) = 1"
    by (rule set_dead_diag_one[OF sq c z])
  show ?thesis
  proof (cases "act_order s")
    case True
    then have "h1 ! g = permute_sym (pl ! g) (set_dead_diag (dead_mask (h ! g)) (h ! g))"
      using P g by simp
    then show ?thesis using one p V(1) by (simp add: permute_sym_diag)
  next
    case False
    then have "h1 ! g = set_dead_diag (dead_mask (h ! g)) (h ! g)" "pl ! g ! p = p"
      using P g p pg by (simp_all add: perm_of_def)
    then show ?thesis using one by simp
  qed
qed

text \<open>
  Claim C3, amended. On a layer that never saw a batch (sample count 0, accumulator
  all zeros) \<^verbatim>\<open>single_layer_update\<close> is not skipped and there is no guard on the
  sample count: every column is dead, so before the inversion every weight is set
  to zero and every diagonal entry of the accumulator to 1, and the call does
  exactly what it does on the same layer with all-zero weights. It never raises
  \<^verbatim>\<open>ZeroDivisionError\<close>: the sample count is not a divisor in it.
\<close>

theorem zero_sample_layer_updated_from_zero_weights:
  assumes "layer_ok s" "nsamples s = 0"
    and "H s = Some (replicate (groups s) (zeros (columns s) (columns s)))"
  shows "(\<exists>h1 pl. dead_and_order s (replicate (groups s) (zeros (columns s) (columns s)))
                    (weight (layer s)) = (h1, zeros (rows s) (columns s), pl) \<and>
                  (\<forall>g<groups s. \<forall>c<columns s. h1 ! g ! c ! c = 1)) \<and>
         single_layer_update la percdamp s =
           single_layer_update la percdamp
             (s\<lparr>layer := (layer s)\<lparr>weight := zeros (rows s) (columns s)\<rparr>\<rparr>) \<and>
         fst (single_layer_update la percdamp s) \<noteq> Inl ZeroDivisionError"
proof -
  let ?h = "replicate (groups s) (zeros (columns s) (columns s))"
  let ?Z = "zeros (rows s) (columns s)"
  let ?s0 = "s\<lparr>layer := (layer s)\<lparr>weight := ?Z\<rparr>\<rparr>"
  note h = assms(3)
  note D = layer_okD[OF assms(1) h]
  have hz: "?h ! g ! c ! c' = 0" if "g < groups s" "c < columns s" "c' < columns s" for g c c'
    using that by (simp add: zeros_def)
  obtain h1 w1 pl where d: "dead_and_order s ?h (weight (layer s)) = (h1, w1, pl)"
    by (cases "dead_and_order s ?h (weight (layer s))") auto
  note W = dead_and_order_weights[OF assms(1) h d]
  have w1: "w1 = ?Z"
  proof (rule weights_eqI[where n = "rows s" and c = "columns s"])
    show "length w1 = rows s" using W by simp
    show "length ?Z = rows s" by (simp add: zeros_nth)
    fix r assume r: "r < rows s"
    have gr: "group_of s r < groups s" using D(3,6) r by (auto simp add: group_of_def)
    show "length (w1 ! r) = columns s \<and> length (?Z ! r) = columns s \<and>
          (\<forall>j<columns s. w1 ! r ! j = ?Z ! r ! j)"
      using W r hz[OF gr] by (simp add: zeros_nth)
  qed
  have ok0: "layer_ok ?s0"
    using assms(1) by (auto simp add: layer_ok_def shape_ok_def zeros_def list_all_iff split: option.splits)
  have h0: "H ?s0 = Some ?h" using h by simp
  obtain h1' w1' pl' where d0: "dead_and_order ?s0 ?h ?Z = (h1', w1', pl')"
    by (cases "dead_and_order ?s0 ?h ?Z") auto
  have d0': "dead_and_order ?s0 ?h (weight (layer ?s0)) = (h1', w1', pl')" using d0 by simp
  note W0 = dead_and_order_weights[OF ok0 h0 d0']
  have w1': "w1' = ?Z"
  proof (rule weights_eqI[where n = "rows s" and c = "columns s"])
    show "length w1' = rows s" using W0 by simp
    show "length ?Z = rows s" by (simp add: zeros_nth)
    fix r assume r: "r < rows s"
    show "length (w1' ! r) = columns s \<and> length (?Z ! r) = columns s \<and>
          (\<forall>j<columns s. w1' ! r ! j = ?Z ! r ! j)"
      using W0 r by (simp add: zeros_nth)
  qed
  have same: "h1' = h1 \<and> pl' = pl"
    by (rule dead_and_order_independent[OF assms(1) h ok0 h0 _ _ _ d d0]) simp_all
  have diag1: "h1 ! g ! c ! c = 1" if g: "g < groups s" and c: "c < columns s" for g c
  proof -
    have "pl ! g ! c < columns s" by (rule perm_entry_less[OF assms(1) h d g c])
    then have "?h ! g ! (pl ! g ! c) ! (pl ! g ! c) = 0" using hz[OF g] by simp
    then show ?thesis by (rule dead_and_order_diag[OF assms(1) h d g c])
  qed
  have eq: "single_layer_update la percdamp s = single_layer_update la percdamp ?s0"
    using h d d0 w1 w1' same
    by (simp add: single_layer_update_def process_block_weight_cong Let_def split: option.splits)
  show ?thesis using d w1 diag1 eq single_layer_update_no_zero_division by simp
qed

theorem zero_sample_layer_updated_from_zero_weights_witness:
  "single_layer_update exact_linalg (1 / 100) fc_state =
   single_layer_update exact_linalg (1 / 100) (fc_state\<lparr>layer := fc_layer\<lparr>weight := [[0, 0]]\<rparr>\<rparr>)"
proof -
  have ok: "layer_ok fc_state"
    by (simp add: layer_ok_def shape_ok_def fc_state_def fc_layer_def square_def)
  have f: "nsamples fc_state = 0"
    "H fc_state = Some (replicate (groups fc_state) (zeros (columns fc_state) (columns fc_state)))"
    "zeros (rows fc_state) (columns fc_state) = [[0, 0]]" "layer fc_state = fc_layer"
    by (simp_all add: fc_state_def zeros_def numeral_2_eq_2)
  from zero_sample_layer_updated_from_zero_weights[OF ok f(1,2), of exact_linalg "1 / 100"]
  show ?thesis unfolding f(3,4) by simp
qed

text \<open>
  The claim as stated fails on the example layer fresh from \<^verbatim>\<open>__init__\<close>: the update
  runs and the weights \<open>[[1, 3]]\<close> become \<open>[[0, 0]]\<close>.
\<close>

theorem zero_sample_layer_counterexample:
  "nsamples fc_state = 0 \<and> H fc_state = Some [[[0, 0], [0, 0]]] \<and>
   weight (layer fc_state) = [[1, 3]] \<and>
   fst (single_layer_update exact_linalg (1 / 100) fc_state) = Inr () \<and>
   weight (layer (fst (snd (single_layer_update exact_linalg (1 / 100) fc_state)))) = [[0, 0]]"
  by (simp add: eval_defs fc_state_def fc_layer_def round_half_def upt2)

text \<open>
  Claim C4, amended. For a column whose accumulator diagonal entry is zero at the
  start (per group; \<open>group_of\<close> gives the group of a weight row), the dead-channel
  step leaves the weight entry of every row of that group at that column exactly
  zero and the accumulator's diagonal entry for that column, at the position the
  permutation gives it, at 1 before the inversion; when the inversion fails the
  entry is still zero when the call returns. (When the inversion succeeds the
  block loop overwrites the column like any other.)
\<close>

theorem dead_channel_zeroed_before_inversion:
  assumes "layer_ok s" "H s = Some h"
    and "dead_and_order s h (weight (layer s)) = (h1, w1, pl)"
    and "r < rows s" "c < columns s" "h ! (group_of s r) ! c ! c = 0"
  shows "w1 ! r ! c = 0 \<and>
         (\<exists>p<columns s. pl ! (group_of s r) ! p = c) \<and>
         (\<forall>p<columns s. pl ! (group_of s r) ! p = c \<longrightarrow> h1 ! (group_of s r) ! p ! p = 1) \<and>
         (invert_groups la percdamp [0..<groups s] h1 = None \<longrightarrow>
            weight (layer (fst (snd (single_layer_update la percdamp s)))) ! r ! c = 0)"
proof -
  let ?g = "group_of s r"
  have g: "?g < groups s" by (rule group_of_less[OF assms(1,2,4)])
  have w: "w1 ! r ! c = 0"
    using dead_and_order_weights[OF assms(1,2,3)] assms(4,5,6) by simp
  note P = dead_and_order_perms[OF assms(1,2,3)]
  have lh: "length (h ! ?g) = columns s" using layer_okD(2)[OF assms(1,2) g] by (simp add: square_def)
  have pg: "pl ! ?g = perm_of (act_order s) (columns s) (h ! ?g)" using P g by simp
  note V = perm_of_valid[OF lh, of "act_order s", folded pg]
  have "c \<in> set (pl ! ?g)" using V(3) assms(5) by simp
  then have ex: "\<exists>p<columns s. pl ! ?g ! p = c" using V(1) by (auto simp add: in_set_conv_nth)
  have one: "h1 ! ?g ! p ! p = 1" if "p < columns s" "pl ! ?g ! p = c" for p
    using dead_and_order_diag[OF assms(1,2,3) g that(1)] that(2) assms(6) by simp
  have fail: "weight (layer (fst (snd (single_layer_update la percdamp s)))) ! r ! c = 0"
    if "invert_groups la percdamp [0..<groups s] h1 = None"
    using single_layer_update_failed[OF assms(2,3) that] w by simp
  show ?thesis using w ex one fail by blast
qed

theorem dead_channel_zeroed_before_inversion_witness:
  "dead_and_order fail_state [[[0, 0, 0], [0, 1, 11], [0, 11, 61]]] [[5, 1, 2]] =
     ([[[1, 0, 0], [0, 1, 11], [0, 11, 61]]], [[0, 1, 2]], [[0, 1, 2]]) \<and>
   weight (layer (fst (snd (single_layer_update exact_linalg (1 / 100) fail_state)))) ! 0 ! 0 = 0"
proof -
  have h: "H fail_state = Some [[[0, 0, 0], [0, 1, 11], [0, 11, 61]]]"
    and w: "weight (layer fail_state) = [[5, 1, 2]]"
    and f: "0 < rows fail_state" "0 < columns fail_state"
      "[[[0, 0, 0], [0, 1, 11], [0, 11, 61]]] ! (group_of fail_state 0) ! 0 ! 0 = (0::real)"
    by (simp_all add: fail_state_def fc_state_def fc_layer_def group_of_def)
  from dead_channel_zeroed_before_inversion[OF layer_ok_fail h fail_state_dead[folded w] f,
      of exact_linalg "1 / 100"] fail_state_invert
  have "weight (layer (fst (snd (single_layer_update exact_linalg (1 / 100) fail_state)))) ! 0 ! 0 = 0"
    by blast
  then show ?thesis using fail_state_dead by simp
qed

text \<open>
  The claim as stated fails on \<open>dead_state\<close>, whose binary quantizer maps 0 to 1:
  the dead first column is zeroed, then the block loop drives it to its quantized
  value, and the call returns the weights \<open>[[1, 1]]\<close>.
\<close>

theorem dead_channel_not_zero_counterexample:
  "H dead_state = Some [[[0, 0], [0, 2]]] \<and>
   weight (layer dead_state) = [[1, 3]] \<and>
   fst (single_layer_update exact_linalg (1 / 100) dead_state) = Inr () \<and>
   weight (layer (fst (snd (single_layer_update exact_linalg (1 / 100) dead_state)))) = [[1, 1]]"
  by (simp add: eval_defs dead_state_def fc_state_def fc_layer_def binary_sign_def upt2)

subsection \<open>Reachable states of eligible layers are well-formed\<close>

lemma update_batch_fields:
  assumes "update_batch s inp cl = (e, s', cl')"
  shows "layer s' = layer s \<and> groups s' = groups s \<and> rows s' = rows s \<and> columns s' = columns s"
proof (cases "preprocess s (unsqueeze_unbatched (inp_value inp))")
  case (Inl a)
  then show ?thesis using assms by (simp add: update_batch_def Let_def)
next
  case (Inr X)
  then show ?thesis using assms
    by (auto simp add: update_batch_def hessian_update_def Let_def split: option.splits if_splits)
qed

lemma reachable_fields:
  "reachable s \<Longrightarrow>
   rows s = length (weight (layer s)) \<and> columns s = shape1 (weight (layer s)) \<and>
   groups s = (if kind (layer s) = QuantConv2d then conv_groups (layer s) else 1)"
proof (induction rule: reachable.induct)
  case (init l nm nb ao s)
  then show ?case by (auto simp add: gptq_init_def Let_def split: if_splits)
next
  case (step s inp cl e s' cl')
  then show ?case using update_batch_fields[OF step.hyps(2)] by simp
qed

lemma reachable_layer_ok:
  assumes "reachable s" "eligible (layer s)"
  shows "layer_ok s"
proof -
  note F = reachable_fields[OF assms(1)]
  have I: "inv s" by (rule reachable_inv[OF assms(1)])
  then have sh: "shape_ok s"
    by (auto simp add: inv_def hessian_ok_def shape_ok_def list_all_iff split: option.splits)
  show ?thesis
    using sh F assms(2) by (auto simp add: layer_ok_def eligible_def)
qed

subsection \<open>Block-wise correction on a layer of one group\<close>

lemma length_scatter: "length (scatter idx vals row) = length row"
proof -
  have "length (fold (\<lambda>(j, v) r. r[j := v]) ps row) = length row" for ps :: "(nat \<times> 'a) list"
    by (induction ps arbitrary: row) (auto)
  then show ?thesis by (simp add: scatter_def)
qed

lemma scatter_other: "j \<notin> set idx \<Longrightarrow> scatter idx vals row ! j = row ! j"
proof -
  have "j \<notin> fst ` set ps \<Longrightarrow> fold (\<lambda>(j, v) r. r[j := v]) ps row ! j = row ! j"
    for ps :: "(nat \<times> 'a) list"
    by (induction ps arbitrary: row) (auto)
  moreover have "j \<notin> set idx \<Longrightarrow> j \<notin> fst ` set (zip idx vals)"
    by (auto dest: set_zip_leftD)
  ultimately show "j \<notin> set idx \<Longrightarrow> scatter idx vals row ! j = row ! j"
    by (simp add: scatter_def)
qed

lemma scatter_head:
  assumes "distinct (j # idx)" "j < length row"
  shows "scatter (j # idx) (v # vals) row ! j = v"
proof -
  have "scatter (j # idx) (v # vals) row = scatter idx vals (row[j := v])"
    by (simp add: scatter_def)
  then show ?thesis using assms scatter_other[of j idx vals "row[j := v]"] by simp
qed

lemma sub_from_nth:
  assumes "k < length row" "hrow \<noteq> []"
  shows "sub_from k e hrow row ! k = row ! k - e * hrow ! 0"
proof -
  obtain x xs where d: "drop k row = x # xs" "x = row ! k"
    using assms(1) by (metis Cons_nth_drop_Suc)
  obtain y ys where h: "hrow = y # ys" using assms(2) by (cases hrow) auto
  show ?thesis using assms(1) d h by (simp add: sub_from_def nth_append)
qed

lemma length_sub_from:
  "length hrow = length row - k \<Longrightarrow> k \<le> length row \<Longrightarrow> length (sub_from k e hrow row) = length row"
  by (simp add: sub_from_def)

lemma slice_nth: "i2 \<le> length xs \<Longrightarrow> i1 + k < i2 \<Longrightarrow> slice i1 i2 xs ! k = xs ! (i1 + k)"
  by (simp add: slice_def)

lemma length_slice: "i2 \<le> length xs \<Longrightarrow> length (slice i1 i2 xs) = i2 - i1"
  by (simp add: slice_def)

lemma column_step_single:
  assumes "groups s = 1" "length h_inv = 1"
  shows "column_step s h_inv pl i1 i2 i (wt, wb, eb) =
     (let hb = map (slice i1 i2) (slice i1 i2 (h_inv ! 0));
          q = get_quant_weights s wt i i1 i2 pl;
          error = map2 (\<lambda>a b. (a - b) / hb ! i ! i) (map (\<lambda>row. row ! i) wb) q;
          wb1 = map2 (\<lambda>e row. sub_from i e (drop i (hb ! i)) row) error wb
      in (map2 (\<lambda>row brow. scatter (drop i (slice i1 i2 (pl ! 0))) (drop i brow) row) wt wb1,
          wb1, map2 (\<lambda>e row. row[i := e]) error eb))"
proof -
  obtain A where A: "h_inv = [A]" using assms(2) by (cases h_inv) auto
  show ?thesis
    by (simp add: column_step_def residual_def perm_in_scope_def assms(1) A Let_def)
qed

lemma length_get_quant_weights:
  "length (get_quant_weights s wt i i1 i2 pl) = length (quant_weight (layer s) wt)"
  by (simp add: get_quant_weights_def Let_def)

lemma columns_done_Suc:
  "columns_done s h_inv pl i1 (Suc k) wt =
   column_step s h_inv pl i1 (block_end s i1) k (columns_done s h_inv pl i1 k wt)"
  by (simp add: columns_done_def)

lemma columns_done_invariant:
  assumes g: "groups s = 1" and lh: "length h_inv = 1"
    and sq: "square (columns s) (h_inv ! 0)"
    and nz: "\<forall>j<columns s. h_inv ! 0 ! j ! j \<noteq> 0"
    and lp: "length (pl ! 0) = columns s" and dp: "distinct (pl ! 0)"
    and sp: "set (pl ! 0) = {0..<columns s}"
    and lw: "length wt = rows s" and rw: "list_all (\<lambda>row. length row = columns s) wt"
    and lq: "\<forall>w'. length (quant_weight (layer s) w') = length w'"
    and k: "k \<le> block_end s i1 - i1"
  shows "(case columns_done s h_inv pl i1 k wt of (w, wb, eb) \<Rightarrow>
           length w = rows s \<and> length wb = rows s \<and> length eb = rows s \<and>
           (\<forall>r<rows s. length (w ! r) = columns s \<and> length (wb ! r) = block_end s i1 - i1) \<and>
           (\<forall>i<k. \<forall>r<rows s.
              w ! r ! (pl ! 0 ! (i1 + i)) = quant_read s h_inv pl i1 i wt ! r))"
  using k
proof (induction k)
  case 0
  have i2: "block_end s i1 \<le> columns s" by (simp add: block_end_def)
  show ?case
    using lw rw lp i2
    by (simp add: columns_done_def block_init_def g Let_def gather_def list_all_length length_slice)
next
  case (Suc k)
  let ?i2 = "block_end s i1"
  let ?count = "?i2 - i1"
  let ?perm = "pl ! 0"
  obtain w wb eb where S: "columns_done s h_inv pl i1 k wt = (w, wb, eb)"
    by (cases "columns_done s h_inv pl i1 k wt") auto
  from Suc have kc: "k < ?count" by simp
  from Suc.IH S kc have IH:
    "length w = rows s" "length wb = rows s" "length eb = rows s"
    "\<And>r. r < rows s \<Longrightarrow> length (w ! r) = columns s"
    "\<And>r. r < rows s \<Longrightarrow> length (wb ! r) = ?count"
    "\<And>i r. i < k \<Longrightarrow> r < rows s \<Longrightarrow> w ! r ! (?perm ! (i1 + i)) = quant_read s h_inv pl i1 i wt ! r"
    by simp_all
  have i2: "?i2 \<le> columns s" by (simp add: block_end_def)
  have ik: "i1 + k < ?i2" using kc by simp
  define hb where "hb = map (slice i1 ?i2) (slice i1 ?i2 (h_inv ! 0))"
  define q where "q = get_quant_weights s w k i1 ?i2 pl"
  define error where "error = map2 (\<lambda>a b. (a - b) / hb ! k ! k) (map (\<lambda>row. row ! k) wb) q"
  define wb1 where "wb1 = map2 (\<lambda>e row. sub_from k e (drop k (hb ! k)) row) error wb"
  define w1 where "w1 = map2 (\<lambda>row brow. scatter (drop k (slice i1 ?i2 ?perm)) (drop k brow) row) w wb1"
  define eb1 where "eb1 = map2 (\<lambda>e row. row[k := e]) error eb"
  have step: "columns_done s h_inv pl i1 (Suc k) wt = (w1, wb1, eb1)"
    unfolding columns_done_Suc S column_step_single[OF g lh]
    by (simp add: Let_def hb_def q_def error_def wb1_def w1_def eb1_def)
  have qr: "q = quant_read s h_inv pl i1 k wt"
    by (simp add: q_def quant_read_def S)
  have lA: "length (h_inv ! 0) = columns s" "\<And>j. j < columns s \<Longrightarrow> length (h_inv ! 0 ! j) = columns s"
    using sq by (simp_all add: square_def list_all_length)
  have lhb: "length hb = ?count" using i2 lA by (simp add: hb_def length_slice)
  have hbk: "hb ! k = slice i1 ?i2 (h_inv ! 0 ! (i1 + k))"
    using kc i2 lA ik by (simp add: hb_def length_slice slice_nth)
  have lhbk: "length (hb ! k) = ?count" using i2 lA ik by (simp add: hbk length_slice)
  have dkk: "hb ! k ! k = h_inv ! 0 ! (i1 + k) ! (i1 + k)"
    using i2 lA ik by (simp add: hbk slice_nth)
  have dnz: "hb ! k ! k \<noteq> 0" using nz ik i2 by (simp add: dkk)
  have lqq: "length q = rows s" using lq IH(1) by (simp add: q_def length_get_quant_weights)
  have lerr: "length error = rows s" using lqq IH(2) by (simp add: error_def)
  have err: "error ! r = (wb ! r ! k - q ! r) / hb ! k ! k" if "r < rows s" for r
    using that lqq IH(2) by (simp add: error_def)
  have lwb1: "length wb1 = rows s" using lerr IH(2) by (simp add: wb1_def)
  have wb1r: "wb1 ! r = sub_from k (error ! r) (drop k (hb ! k)) (wb ! r)" if "r < rows s" for r
    using that lerr IH(2) by (simp add: wb1_def)
  have lwb1r: "length (wb1 ! r) = ?count" if "r < rows s" for r
    using that IH(5)[OF that] lhbk kc by (simp add: wb1r length_sub_from)
  have wb1k: "wb1 ! r ! k = q ! r" if r: "r < rows s" for r
  proof -
    have ne: "drop k (hb ! k) \<noteq> []" using lhbk kc by simp
    have h0: "drop k (hb ! k) ! 0 = hb ! k ! k" using lhbk kc by simp
    have "wb1 ! r ! k = wb ! r ! k - error ! r * hb ! k ! k"
      using sub_from_nth[where row = "wb ! r" and e = "error ! r" and k = k, OF _ ne] IH(5)[OF r] kc
      by (simp add: wb1r[OF r] h0)
    also have "\<dots> = q ! r" using dnz by (simp add: err[OF r])
    finally show ?thesis .
  qed
  have lw1: "length w1 = rows s" using IH(1) lwb1 by (simp add: w1_def)
  have w1r: "w1 ! r = scatter (drop k (slice i1 ?i2 ?perm)) (drop k (wb1 ! r)) (w ! r)"
    if "r < rows s" for r
    using that IH(1) lwb1 by (simp add: w1_def)
  have lw1r: "length (w1 ! r) = columns s" if "r < rows s" for r
    using that IH(4)[OF that] by (simp add: w1r length_scatter)
  have leb1: "length eb1 = rows s" using lerr IH(3) by (simp add: eb1_def)
  have lsl: "length (slice i1 ?i2 ?perm) = ?count" using i2 lp by (simp add: length_slice)
  have idx: "drop k (slice i1 ?i2 ?perm) = ?perm ! (i1 + k) # drop (Suc k) (slice i1 ?i2 ?perm)"
    using lsl kc i2 lp ik by (simp add: Cons_nth_drop_Suc[symmetric] slice_nth)
  have dsl: "distinct (slice i1 ?i2 ?perm)" using dp by (simp add: slice_def)
  have didx: "distinct (drop k (slice i1 ?i2 ?perm))" using dsl by simp
  have new: "w1 ! r ! (?perm ! (i1 + k)) = q ! r" if r: "r < rows s" for r
  proof -
    have vals: "drop k (wb1 ! r) = wb1 ! r ! k # drop (Suc k) (wb1 ! r)"
      using lwb1r[OF r] kc by (simp add: Cons_nth_drop_Suc)
    have pl: "?perm ! (i1 + k) < length (w ! r)"
    proof -
      have "?perm ! (i1 + k) \<in> set ?perm" using lp ik i2 by simp
      then show ?thesis using sp IH(4)[OF r] by simp
    qed
    have "w1 ! r ! (?perm ! (i1 + k)) = wb1 ! r ! k"
      unfolding w1r[OF r] idx vals
      by (rule scatter_head[OF didx[unfolded idx] pl])
    then show ?thesis using wb1k[OF r] by simp
  qed
  have old: "w1 ! r ! (?perm ! (i1 + i)) = w ! r ! (?perm ! (i1 + i))"
    if r: "r < rows s" and i: "i < k" for r i
  proof -
    have "?perm ! (i1 + i) \<notin> set (drop k (slice i1 ?i2 ?perm))"
    proof
      assume "?perm ! (i1 + i) \<in> set (drop k (slice i1 ?i2 ?perm))"
      then obtain m where m: "m < ?count - k" "drop k (slice i1 ?i2 ?perm) ! m = ?perm ! (i1 + i)"
        using lsl by (auto simp add: in_set_conv_nth)
      then have "?perm ! (i1 + (k + m)) = ?perm ! (i1 + i)"
        using lsl i2 lp by (simp add: slice_nth add.assoc)
      moreover have "i1 + (k + m) < length ?perm" "i1 + i < length ?perm"
        using m(1) i kc i2 lp by simp_all
      ultimately have "i1 + (k + m) = i1 + i" using dp by (simp add: nth_eq_iff_index_eq)
      then show False using i by simp
    qed
    then show ?thesis by (simp add: w1r[OF r] scatter_other)
  qed
  have all: "w1 ! r ! (?perm ! (i1 + i)) = quant_read s h_inv pl i1 i wt ! r"
    if "i < Suc k" "r < rows s" for i r
  proof (cases "i = k")
    case True
    then show ?thesis using new[OF that(2)] qr by simp
  next
    case False
    then have "i < k" using that(1) by simp
    then show ?thesis using old[OF that(2)] IH(6)[OF _ that(2)] by simp
  qed
  show ?case
    unfolding step using lw1 lwb1 leb1 lw1r lwb1r all by simp
qed

lemma process_block_columns_done:
  "process_block s h_inv pl i1 wt =
     (case columns_done s h_inv pl i1 (block_end s i1 - i1) wt of
        (w, wb, eb) \<Rightarrow> propagate s h_inv pl i1 (block_end s i1) eb w)"
  by (simp add: process_block_def columns_done_def block_end_def Let_def)

lemma propagate_row_other:
  "j \<notin> set (drop i2 perm) \<Longrightarrow> propagate_row i1 i2 A perm erow row ! j = row ! j"
  by (simp add: propagate_row_def Let_def scatter_other)

lemma block_conserved_single_group:
  assumes g: "groups s = 1" and lh: "length h_inv = 1"
    and sq: "square (columns s) (h_inv ! 0)"
    and nz: "\<forall>j<columns s. h_inv ! 0 ! j ! j \<noteq> 0"
    and lp: "length (pl ! 0) = columns s" and dp: "distinct (pl ! 0)"
    and sp: "set (pl ! 0) = {0..<columns s}"
    and lw: "length wt = rows s" and rw: "list_all (\<lambda>row. length row = columns s) wt"
    and lq: "\<forall>w'. length (quant_weight (layer s) w') = length w'"
  shows "block_conserved s h_inv pl i1 wt"
proof -
  let ?i2 = "block_end s i1"
  let ?count = "?i2 - i1"
  let ?perm = "pl ! 0"
  obtain w wb eb where S: "columns_done s h_inv pl i1 ?count wt = (w, wb, eb)"
    by (cases "columns_done s h_inv pl i1 ?count wt") auto
  from columns_done_invariant[OF g lh sq nz lp dp sp lw rw lq order_refl, of i1] S
  have I: "length w = rows s" "length eb = rows s"
    "\<And>i r. i < ?count \<Longrightarrow> r < rows s \<Longrightarrow>
        w ! r ! (?perm ! (i1 + i)) = quant_read s h_inv pl i1 i wt ! r"
    by simp_all
  have i2: "?i2 \<le> columns s" by (simp add: block_end_def)
  have pb: "process_block s h_inv pl i1 wt =
            map2 (propagate_row i1 ?i2 (h_inv ! 0) ?perm) eb w"
    by (simp add: process_block_columns_done S propagate_def g)
  have "process_block s h_inv pl i1 wt ! r ! (pl ! (group_of s r) ! (i1 + i)) =
        quant_read s h_inv pl i1 i wt ! r"
    if i: "i < ?count" and r: "r < rows s" for i r
  proof -
    have notin: "?perm ! (i1 + i) \<notin> set (drop ?i2 ?perm)"
    proof
      assume "?perm ! (i1 + i) \<in> set (drop ?i2 ?perm)"
      then obtain m where m: "m < columns s - ?i2" "drop ?i2 ?perm ! m = ?perm ! (i1 + i)"
        using lp by (auto simp add: in_set_conv_nth)
      then have "?perm ! (?i2 + m) = ?perm ! (i1 + i)" using lp i2 by simp
      moreover have "?i2 + m < length ?perm" "i1 + i < length ?perm"
        using m(1) i i2 lp by simp_all
      ultimately have "?i2 + m = i1 + i" using dp by (simp add: nth_eq_iff_index_eq)
      then show False using i by simp
    qed
    have "process_block s h_inv pl i1 wt ! r =
          propagate_row i1 ?i2 (h_inv ! 0) ?perm (eb ! r) (w ! r)"
      using r I(1,2) by (simp add: pb)
    then show ?thesis
      using propagate_row_other[OF notin] I(3)[OF i r] by (simp add: group_of_def g)
  qed
  then show ?thesis by (simp add: block_conserved_def list_all_iff)
qed

lemma length_propagate_row: "length (propagate_row i1 i2 A perm erow row) = length row"
  by (simp add: propagate_row_def Let_def length_scatter)

lemma process_block_shape:
  assumes g: "groups s = 1" and lh: "length h_inv = 1"
    and sq: "square (columns s) (h_inv ! 0)"
    and nz: "\<forall>j<columns s. h_inv ! 0 ! j ! j \<noteq> 0"
    and lp: "length (pl ! 0) = columns s" and dp: "distinct (pl ! 0)"
    and sp: "set (pl ! 0) = {0..<columns s}"
    and lw: "length wt = rows s" and rw: "list_all (\<lambda>row. length row = columns s) wt"
    and lq: "\<forall>w'. length (quant_weight (layer s) w') = length w'"
  shows "length (process_block s h_inv pl i1 wt) = rows s \<and>
         list_all (\<lambda>row. length row = columns s) (process_block s h_inv pl i1 wt)"
proof -
  let ?i2 = "block_end s i1"
  obtain w wb eb where S: "columns_done s h_inv pl i1 (?i2 - i1) wt = (w, wb, eb)"
    by (cases "columns_done s h_inv pl i1 (?i2 - i1) wt") auto
  from columns_done_invariant[OF g lh sq nz lp dp sp lw rw lq order_refl, of i1] S
  have I: "length w = rows s" "length eb = rows s" "\<And>r. r < rows s \<Longrightarrow> length (w ! r) = columns s"
    by simp_all
  have pb: "process_block s h_inv pl i1 wt =
            map2 (propagate_row i1 ?i2 (h_inv ! 0) (pl ! 0)) eb w"
    by (simp add: process_block_columns_done S propagate_def g)
  show ?thesis using I by (simp add: pb list_all_length length_propagate_row)
qed

lemma length_invert_groups:
  "invert_groups la percdamp is h = Some h_inv \<Longrightarrow> length h_inv = length h"
  by (induction "is" arbitrary: h) (auto split: option.splits)

text \<open>
  On a layer of one group every block of a run is conserved, in exact arithmetic:
  after \<^verbatim>\<open>single_layer_update\<close> has worked through any number of blocks, the next
  block leaves each of its columns, in every row, at the quantized value read for
  it. The inverse factor is only asked to be square with a non-zero diagonal, as a
  Cholesky factor is, and the quantizer to keep the number of rows.
\<close>

lemma blocks_conserved_single_group:
  assumes ok: "layer_ok s" and g: "groups s = 1" and h: "H s = Some h"
    and d: "dead_and_order s h (weight (layer s)) = (h1, w1, pl)"
    and inv: "invert_groups la percdamp [0..<groups s] h1 = Some h_inv"
    and sq: "square (columns s) (h_inv ! 0)"
    and nz: "\<forall>j<columns s. h_inv ! 0 ! j ! j \<noteq> 0"
    and lq: "\<forall>w'. length (quant_weight (layer s) w') = length w'"
  shows "block_conserved s h_inv pl i1 (fold (process_block s h_inv pl) starts w1)"
proof -
  note P = dead_and_order_perms[OF ok h d]
  have lh1: "length h1 = 1" using P g by simp
  have lh: "length h_inv = 1" using length_invert_groups[OF inv] lh1 by simp
  have lhg: "length (h ! 0) = columns s"
    using layer_okD(2)[OF ok h, of 0] g by (simp add: square_def)
  have pg: "pl ! 0 = perm_of (act_order s) (columns s) (h ! 0)" using P g by simp
  note V = perm_of_valid[OF lhg, of "act_order s", folded pg]
  note W = dead_and_order_weights[OF ok h d]
  have w1: "length w1 = rows s" "list_all (\<lambda>row. length row = columns s) w1"
    using W by (simp_all add: list_all_length)
  have shape: "length (fold (process_block s h_inv pl) starts w) = rows s \<and>
         list_all (\<lambda>row. length row = columns s) (fold (process_block s h_inv pl) starts w)"
    if "length w = rows s" "list_all (\<lambda>row. length row = columns s) w" for w
    using that
  proof (induction starts arbitrary: w)
    case Nil
    then show ?case by simp
  next
    case (Cons a starts)
    from process_block_shape[OF g lh sq nz V Cons.prems lq, of a]
    show ?case using Cons.IH by simp
  qed
  from shape[OF w1] show ?thesis
    by (intro block_conserved_single_group[OF g lh sq nz V _ _ lq]) simp_all
qed

text \<open>The first block of \<open>dead_state\<close>, with the exact primitives, is an instance.\<close>

lemma dead_state_blocks:
  "block_conserved dead_state
     (the (invert_groups exact_linalg (1 / 100) [0..<1] [[[1, 0], [0, 2]]])) [[0, 1]] 0 [[0, 3]]"
proof -
  have ok: "layer_ok dead_state"
    by (simp add: layer_ok_def shape_ok_def dead_state_def fc_state_def fc_layer_def square_def)
  have f: "groups dead_state = 1" "H dead_state = Some [[[0, 0], [0, 2]]]"
    "weight (layer dead_state) = [[1, 3]]" "columns dead_state = 2"
    by (simp_all add: dead_state_def fc_state_def fc_layer_def)
  have d: "dead_and_order dead_state [[[0, 0], [0, 2]]] (weight (layer dead_state)) =
           ([[[1, 0], [0, 2]]], [[0, 3]], [[0, 1]])"
    by (simp add: dead_state_def fc_state_def fc_layer_def dead_and_order_def dead_mask_def diag_def
      set_dead_diag_def zero_dead_def upt2 Let_def)
  obtain a b where i: "invert_groups exact_linalg (1 / 100) [0..<groups dead_state] [[[1, 0], [0, 2]]] =
      Some [[[a, 0], [0, b]]]" and ab: "a \<noteq> 0" "b \<noteq> 0"
    by (simp add: f invert_group_def mean_def diag_def upt2 add_diag_def exact_linalg_def
      chol_lower_def dot_def chol_inverse_def gram_def unit_vec_def transpose_sq_def Let_def)
  have q: "\<forall>w'. length (quant_weight (layer dead_state) w') = length w'"
    by (simp add: dead_state_def fc_state_def fc_layer_def binary_sign_def)
  have sq: "square (columns dead_state) ([[[a, 0], [0, b]]] ! 0)"
    "\<forall>j<columns dead_state. [[[a, 0], [0, b]]] ! 0 ! j ! j \<noteq> 0"
    using ab by (simp_all add: f square_def less_Suc_eq numeral_2_eq_2)
  from blocks_conserved_single_group[OF ok f(1,2) d i sq q, of 0 "[]"]
  show ?thesis using i by (simp add: f)
qed

subsection \<open>Block-wise correction on a grouped layer\<close>

lemma sqrt_quarter: "sqrt (1 / 4) = 1 / 2"
  using real_sqrt_divide[of 1 4] by simp

lemma dw_dead:
  "dead_and_order dw_state [[[803 / 202, 0], [0, 197 / 202]], [[197 / 202, 0], [0, 803 / 202]]]
     [[1 / 5, 3], [2, 7 / 10]] =
   ([[[803 / 202, 0], [0, 197 / 202]], [[803 / 202, 0], [0, 197 / 202]]],
    [[1 / 5, 3], [2, 7 / 10]], [[0, 1], [1, 0]])"
  by (simp add: dw_state_def dw_layer_def dead_and_order_def order_group_def dead_mask_def diag_def
      set_dead_diag_def zero_dead_def argsort_desc_def permute_sym_def upt2 Let_def)

lemma dw_invert:
  "invert_groups exact_linalg (1 / 100) [0..<2]
     [[[803 / 202, 0], [0, 197 / 202]], [[803 / 202, 0], [0, 197 / 202]]] =
   Some [[[1 / 2, 0], [0, 1]], [[1 / 2, 0], [0, 1]]]"
  by (simp add: invert_group_def mean_def diag_def upt2 add_diag_def exact_linalg_def
      chol_lower_def dot_def chol_inverse_def gram_def unit_vec_def transpose_sq_def Let_def
      sqrt_quarter)

lemmas block_defs = process_block_def block_init_def column_step_def get_quant_weights_def
  residual_def sub_from_def perm_in_scope_def propagate_def propagate_row_def vecmat_def
  shape1_def dot_def gather_def scatter_def slice_def round_half_def round_def Let_def
  dw_state_def dw_layer_def columns_done_def quant_read_def block_end_def

lemma dw_quant_read:
  "quant_read dw_state [[[1 / 2, 0], [0, 1]], [[1 / 2, 0], [0, 1]]] [[0, 1], [1, 0]] 0 0
     [[1 / 5, 3], [2, 7 / 10]] = [0, 1 / 2]"
  by (simp add: block_defs upt2)

lemma dw_block0:
  "process_block dw_state [[[1 / 2, 0], [0, 1]], [[1 / 2, 0], [0, 1]]] [[0, 1], [1, 0]] 0
     [[1 / 5, 3], [2, 7 / 10]] = [[1 / 5, 0], [2, 1 / 2]]"
  by (simp add: block_defs upt2)

lemma dw_block1:
  "process_block dw_state [[[1 / 2, 0], [0, 1]], [[1 / 2, 0], [0, 1]]] [[0, 1], [1, 0]] 1
     [[1 / 5, 0], [2, 1 / 2]] = [[0, 0], [2, 1 / 2]]"
  by (simp add: block_defs upt2)

lemma single_layer_update_succeeded:
  assumes "H s = Some h" "dead_and_order s h (weight (layer s)) = (h1, w1, pl)"
    and "invert_groups la percdamp [0..<groups s] h1 = Some h_inv" "blocksize s \<noteq> 0"
  shows "single_layer_update la percdamp s =
         (Inr (),
          s\<lparr>layer := (layer s)\<lparr>weight :=
               fold (process_block s h_inv pl) (block_starts (columns s) (blocksize s)) w1\<rparr>,
            H := None\<rparr>, [])"
  using assms by (simp add: single_layer_update_def)

lemma dw_update:
  "single_layer_update exact_linalg (1 / 100) dw_state =
     (Inr (), dw_state\<lparr>layer := dw_layer\<lparr>weight := [[0, 0], [2, 1 / 2]]\<rparr>, H := None\<rparr>, [])"
proof -
  have f: "H dw_state = Some [[[803 / 202, 0], [0, 197 / 202]], [[197 / 202, 0], [0, 803 / 202]]]"
    "weight (layer dw_state) = [[1 / 5, 3], [2, 7 / 10]]" "groups dw_state = 2"
    "blocksize dw_state = 1" "columns dw_state = 2" "layer dw_state = dw_layer"
    by (simp_all add: dw_state_def dw_layer_def)
  have b: "block_starts 2 1 = [0, 1]"
    by (simp add: block_starts_def ceil_div_def upt2)
  have d: "dead_and_order dw_state
       [[[803 / 202, 0], [0, 197 / 202]], [[197 / 202, 0], [0, 803 / 202]]]
       (weight (layer dw_state)) =
     ([[[803 / 202, 0], [0, 197 / 202]], [[803 / 202, 0], [0, 197 / 202]]],
      [[1 / 5, 3], [2, 7 / 10]], [[0, 1], [1, 0]])"
    using dw_dead by (simp only: f(2))
  have i: "invert_groups exact_linalg (1 / 100) [0..<groups dw_state]
       [[[803 / 202, 0], [0, 197 / 202]], [[803 / 202, 0], [0, 197 / 202]]] =
     Some [[[1 / 2, 0], [0, 1]], [[1 / 2, 0], [0, 1]]]"
    using dw_invert by (simp only: f(3))
  have nz: "blocksize dw_state \<noteq> 0" by (simp add: f)
  have fo: "fold (process_block dw_state [[[1 / 2, 0], [0, 1]], [[1 / 2, 0], [0, 1]]]
               [[0, 1], [1, 0]])
             (block_starts (columns dw_state) (blocksize dw_state)) [[1 / 5, 3], [2, 7 / 10]] =
            [[0, 0], [2, 1 / 2]]"
    by (simp only: f b fold_simps dw_block0 dw_block1)
  show ?thesis
    using single_layer_update_succeeded[OF f(1) d i nz] by (simp only: fo f(6))
qed

text \<open>
  Claim C5, on the depthwise layer \<open>dw_state\<close>. The inversion succeeds and the two
  groups get the permutations \<open>[0, 1]\<close> and \<open>[1, 0]\<close>. In the first block, pass 0
  reads the quantized values \<open>[0, 1/2]\<close>; for row 0 that is the value of column 0,
  the first column of its own permutation. Line 323 writes every row back through
  \<^verbatim>\<open>perm\<close>, which the loop of line 301 left at the permutation of the last group,
  so the value goes to column 1 of row 0, whose weight 3 is lost, and column 0
  keeps its float weight 1/5: the block is not conserved. At the end the call has
  returned the weights \<open>[[0, 0], [2, 1/2]]\<close>, where the quantizer alone gives
  \<open>[[0, 3], [2, 1/2]]\<close>.
\<close>

theorem stale_permutation_breaks_block:
  "dead_and_order dw_state [[[803 / 202, 0], [0, 197 / 202]], [[197 / 202, 0], [0, 803 / 202]]]
     (weight (layer dw_state)) =
   ([[[803 / 202, 0], [0, 197 / 202]], [[803 / 202, 0], [0, 197 / 202]]],
    [[1 / 5, 3], [2, 7 / 10]], [[0, 1], [1, 0]]) \<and>
   invert_groups exact_linalg (1 / 100) [0..<2]
     [[[803 / 202, 0], [0, 197 / 202]], [[803 / 202, 0], [0, 197 / 202]]] =
   Some [[[1 / 2, 0], [0, 1]], [[1 / 2, 0], [0, 1]]] \<and>
   quant_read dw_state [[[1 / 2, 0], [0, 1]], [[1 / 2, 0], [0, 1]]] [[0, 1], [1, 0]] 0 0
     [[1 / 5, 3], [2, 7 / 10]] = [0, 1 / 2] \<and>
   process_block dw_state [[[1 / 2, 0], [0, 1]], [[1 / 2, 0], [0, 1]]] [[0, 1], [1, 0]] 0
     [[1 / 5, 3], [2, 7 / 10]] = [[1 / 5, 0], [2, 1 / 2]] \<and>
   \<not> block_conserved dw_state [[[1 / 2, 0], [0, 1]], [[1 / 2, 0], [0, 1]]] [[0, 1], [1, 0]] 0
       [[1 / 5, 3], [2, 7 / 10]] \<and>
   single_layer_update exact_linalg (1 / 100) dw_state =
     (Inr (), dw_state\<lparr>layer := dw_layer\<lparr>weight := [[0, 0], [2, 1 / 2]]\<rparr>, H := None\<rparr>, [])"
proof -
  have w: "weight (layer dw_state) = [[1 / 5, 3], [2, 7 / 10]]"
    by (simp add: dw_state_def dw_layer_def)
  have nc: "\<not> block_conserved dw_state [[[1 / 2, 0], [0, 1]], [[1 / 2, 0], [0, 1]]]
       [[0, 1], [1, 0]] 0 [[1 / 5, 3], [2, 7 / 10]]"
  proof
    assume c: "block_conserved dw_state [[[1 / 2, 0], [0, 1]], [[1 / 2, 0], [0, 1]]]
       [[0, 1], [1, 0]] 0 [[1 / 5, 3], [2, 7 / 10]]"
    have f: "rows dw_state = 2" "block_end dw_state 0 = 1" "group_of dw_state 0 = 0"
      by (simp_all add: dw_state_def block_end_def group_of_def)
    have m: "(0::nat) \<in> set [0..<block_end dw_state 0 - 0]" "(0::nat) \<in> set [0..<rows dw_state]"
      by (simp_all add: f)
    have "process_block dw_state [[[1 / 2, 0], [0, 1]], [[1 / 2, 0], [0, 1]]] [[0, 1], [1, 0]] 0
            [[1 / 5, 3], [2, 7 / 10]] ! 0 ! ([[0, 1], [1, 0]] ! (group_of dw_state 0) ! (0 + 0)) =
          quant_read dw_state [[[1 / 2, 0], [0, 1]], [[1 / 2, 0], [0, 1]]] [[0, 1], [1, 0]] 0 0
            [[1 / 5, 3], [2, 7 / 10]] ! 0"
      using c[unfolded block_conserved_def list_all_iff, rule_format, OF m] .
    then have "[[1 / 5, 0], [2, 1 / 2]] ! 0 ! ([[0, 1], [1, 0 :: nat]] ! 0 ! (0 + 0)) = [0, 1 / 2 :: real] ! 0"
      by (simp only: dw_block0 dw_quant_read f)
    then show False by simp
  qed
  show ?thesis using dw_dead dw_invert dw_quant_read dw_block0 nc dw_update unfolding w by simp
qed

end
